theory Spec2Isabelle
  imports Complex_Main
begin

section \<open>Python strings and the helpers the terminal uses\<close>

text \<open>
  A Python \<open>str\<close> is modelled as a \<open>string\<close>, a list of 8-bit characters, so the model
  covers the texts whose code points lie below 256. On these the regular expression
  class \<open>\d\<close> is exactly \<open>0\<close> to \<open>9\<close>.
\<close>

definition ESC :: char where
  "ESC = CHR 0x1B"

definition BEL :: char where
  "BEL = CHR 0x07"

definition NL :: char where
  "NL = CHR 0x0A"

definition is_digit :: "char \<Rightarrow> bool" where
  "is_digit c = (c \<in> set ''0123456789'')"

definition digit_val :: "char \<Rightarrow> int" where
  "digit_val c = int (of_char c) - 48"

datatype error = ValueError

text \<open>
  \<open>int(part)\<close> on a token of an SGR parameter string. The regular expression lets only
  digits, \<open>;\<close> and \<open>?\<close> into that string, and the tokens are what lies between the
  \<open>;\<close>, so a token is a decimal number exactly when it is not empty and holds no \<open>?\<close>;
  any other token makes \<open>int\<close> raise \<open>ValueError\<close>.
\<close>

definition py_int :: "string \<Rightarrow> error + int" where
  "py_int s =
     (if s \<noteq> [] \<and> list_all is_digit s
      then Inr (foldl (\<lambda>a c. 10 * a + digit_val c) 0 s)
      else Inl ValueError)"

text \<open>\<open>s.split(';')\<close>: the pieces between the separators, empty pieces kept.\<close>

fun split_on :: "char \<Rightarrow> string \<Rightarrow> string list" where
  "split_on d [] = [[]]"
| "split_on d (c # cs) =
     (if c = d then [] # split_on d cs
      else (case split_on d cs of
              [] \<Rightarrow> [[c]]
            | p # ps \<Rightarrow> (c # p) # ps))"

text \<open>\<open>s.rstrip('\n')\<close>: every trailing newline removed.\<close>

definition rstrip_nl :: "string \<Rightarrow> string" where
  "rstrip_nl s = rev (dropWhile (\<lambda>c. c = NL) (rev s))"

section \<open>Style state and the SGR interpreter\<close>

text \<open>A colour is the name or hex string handed to \<open>QColor\<close>.\<close>

type_synonym color = string

definition DEFAULT_FG_COLOR :: color where
  "DEFAULT_FG_COLOR = ''white''"

definition DEFAULT_BG_COLOR :: color where
  "DEFAULT_BG_COLOR = ''black''"

definition ANSI_SGR_CODES_TO_COLORS :: "(int \<times> color) list" where
  "ANSI_SGR_CODES_TO_COLORS =
     [(30, ''black''), (31, ''#CD0000''), (32, ''#00CD00''),
      (33, ''#CDCD00''), (34, ''#0000EE''), (35, ''#CD00CD''),
      (36, ''#00CDCD''), (37, ''#E5E5E5''), (39, DEFAULT_FG_COLOR),
      (40, ''black''), (41, ''#CD0000''), (42, ''#00CD00''),
      (43, ''#CDCD00''), (44, ''#0000EE''), (45, ''#CD00CD''),
      (46, ''#00CDCD''), (47, ''#E5E5E5''), (49, DEFAULT_BG_COLOR),
      (90, ''#7F7F7F''), (91, ''red''), (92, ''green''),
      (93, ''yellow''), (94, ''blue''), (95, ''magenta''),
      (96, ''cyan''), (97, ''white''),
      (100, ''#7F7F7F''), (101, ''red''), (102, ''green''),
      (103, ''yellow''), (104, ''blue''), (105, ''magenta''),
      (106, ''cyan''), (107, ''white'')]"

text \<open>\<open>QFont.Weight\<close>.\<close>

datatype weight =
  Thin | ExtraLight | Light | Normal | Medium | DemiBold | Bold | ExtraBold | Black

text \<open>The three properties of the widget's \<open>QFont\<close> that the reset reads.\<close>

record qfont =
  font_weight :: weight
  font_italic :: bool
  font_underline :: bool

text \<open>\<open>current_format\<close>, a \<open>QTextCharFormat\<close>: the five properties the terminal sets.\<close>

record style =
  foreground :: color
  background :: color
  fontWeight :: weight
  fontItalic :: bool
  fontUnderline :: bool

definition default_style :: style where
  "default_style =
     \<lparr>foreground = DEFAULT_FG_COLOR, background = DEFAULT_BG_COLOR,
      fontWeight = Normal, fontItalic = False, fontUnderline = False\<rparr>"

text \<open>
  \<open>_reset_char_format_to_default\<close> of term66.py: the three font properties are first
  taken from the widget's font (when there is one) and then set explicitly.
\<close>

definition reset_char_format_to_default :: "qfont option \<Rightarrow> style \<Rightarrow> style" where
  "reset_char_format_to_default current_font f0 =
     (let f = f0\<lparr>foreground := DEFAULT_FG_COLOR\<rparr>;
          f = f\<lparr>background := DEFAULT_BG_COLOR\<rparr>;
          f = f\<lparr>fontWeight := (case current_font of Some q \<Rightarrow> font_weight q | None \<Rightarrow> Normal)\<rparr>;
          f = f\<lparr>fontItalic := (case current_font of Some q \<Rightarrow> font_italic q | None \<Rightarrow> False)\<rparr>;
          f = f\<lparr>fontUnderline := (case current_font of Some q \<Rightarrow> font_underline q | None \<Rightarrow> False)\<rparr>;
          f = f\<lparr>fontWeight := Normal\<rparr>;
          f = f\<lparr>fontItalic := False\<rparr>
      in f\<lparr>fontUnderline := False\<rparr>)"

text \<open>\<open>_apply_sgr_code\<close> of term66.py.\<close>

definition apply_sgr_code :: "qfont option \<Rightarrow> int \<Rightarrow> style \<Rightarrow> style" where
  "apply_sgr_code current_font code f =
     (if code = 0 then reset_char_format_to_default current_font f
      else if code = 1 then f\<lparr>fontWeight := Bold\<rparr>
      else if code = 3 then f\<lparr>fontItalic := True\<rparr>
      else if code = 4 then f\<lparr>fontUnderline := True\<rparr>
      else (case map_of ANSI_SGR_CODES_TO_COLORS code of
              Some color \<Rightarrow>
                (if (30 \<le> code \<and> code \<le> 37) \<or> (90 \<le> code \<and> code \<le> 97) \<or> code = 39
                 then f\<lparr>foreground := color\<rparr>
                 else if (40 \<le> code \<and> code \<le> 47) \<or> (100 \<le> code \<and> code \<le> 107) \<or> code = 49
                 then f\<lparr>background := color\<rparr>
                 else f)
            | None \<Rightarrow>
                (if code = 22 then f\<lparr>fontWeight := Normal\<rparr>
                 else if code = 23 then f\<lparr>fontItalic := False\<rparr>
                 else if code = 24 then f\<lparr>fontUnderline := False\<rparr>
                 else f)))"

text \<open>
  \<open>_reset_char_format_to_default\<close> and \<open>_apply_sgr_code\<close> of term3.py: no font is read,
  and the codes 22, 23 and 24 are not handled.
\<close>

definition reset_char_format_to_default_v3 :: "style \<Rightarrow> style" where
  "reset_char_format_to_default_v3 f0 =
     (let f = f0\<lparr>foreground := DEFAULT_FG_COLOR\<rparr>;
          f = f\<lparr>background := DEFAULT_BG_COLOR\<rparr>;
          f = f\<lparr>fontWeight := Normal\<rparr>;
          f = f\<lparr>fontItalic := False\<rparr>
      in f\<lparr>fontUnderline := False\<rparr>)"

definition apply_sgr_code_v3 :: "int \<Rightarrow> style \<Rightarrow> style" where
  "apply_sgr_code_v3 code f =
     (if code = 0 then reset_char_format_to_default_v3 f
      else if code = 1 then f\<lparr>fontWeight := Bold\<rparr>
      else if code = 3 then f\<lparr>fontItalic := True\<rparr>
      else if code = 4 then f\<lparr>fontUnderline := True\<rparr>
      else (case map_of ANSI_SGR_CODES_TO_COLORS code of
              Some color \<Rightarrow>
                (if (30 \<le> code \<and> code \<le> 37) \<or> (90 \<le> code \<and> code \<le> 97) \<or> code = 39
                 then f\<lparr>foreground := color\<rparr>
                 else if (40 \<le> code \<and> code \<le> 47) \<or> (100 \<le> code \<and> code \<le> 107) \<or> code = 49
                 then f\<lparr>background := color\<rparr>
                 else f)
            | None \<Rightarrow> f))"

section \<open>The loop over an SGR parameter list\<close>

text \<open>
  One pass through the body of \<open>while idx < len(parts)\<close> in \<open>append_ansi_text\<close> of
  term66.py, up to its last statement \<open>idx += 1\<close> (which the \<open>continue\<close> branch performs
  itself): the result is the amount added to \<open>idx\<close> before that last increment, and the
  format. Each \<open>int(...)\<close> stands in a \<open>try\<close> whose \<open>except ValueError\<close> is the \<open>Inl\<close>
  branch here.
\<close>

definition sgr_step :: "qfont option \<Rightarrow> string list \<Rightarrow> nat \<Rightarrow> style \<Rightarrow> error + (nat \<times> style)" where
  "sgr_step current_font parts idx f =
     (let part = parts ! idx in
      case (if part = [] then Inr 0 else py_int part) of
        Inl ValueError \<Rightarrow> Inr (0, f)
      | Inr code \<Rightarrow>
          if code = 38 \<or> code = 48 then
            (if idx + 1 < length parts then
               (case py_int (parts ! (idx + 1)) of
                  Inr color_mode \<Rightarrow>
                    if color_mode = 5 then
                      (if idx + 2 < length parts then Inr (2, f) else Inr (0, f))
                    else if color_mode = 2 then
                      (if idx + 4 < length parts then Inr (4, f) else Inr (0, f))
                    else Inr (1, f)
                | Inl ValueError \<Rightarrow> Inr (0, f))
             else Inr (0, f))
          else Inr (0, apply_sgr_code current_font code f))"

function sgr_loop :: "qfont option \<Rightarrow> string list \<Rightarrow> nat \<Rightarrow> style \<Rightarrow> error + style" where
  "sgr_loop current_font parts idx f =
     (if idx < length parts then
        (case sgr_step current_font parts idx f of
           Inl e \<Rightarrow> Inl e
         | Inr (skip, f') \<Rightarrow> sgr_loop current_font parts (idx + skip + 1) f')
      else Inr f)"
  by pat_completeness auto
termination
  by (relation "measure (\<lambda>(current_font, parts, idx, f). length parts - idx)") auto

text \<open>
  The same pass in term3.py: the \<open>int(parts[idx+1])\<close> that reads the colour mode stands
  outside any \<open>try\<close>, so its \<open>ValueError\<close> leaves the loop.
\<close>

definition sgr_step_v3 :: "string list \<Rightarrow> nat \<Rightarrow> style \<Rightarrow> error + (nat \<times> style)" where
  "sgr_step_v3 parts idx f =
     (let part = parts ! idx in
      case (if part = [] then Inr 0 else py_int part) of
        Inl ValueError \<Rightarrow> Inr (0, f)
      | Inr code \<Rightarrow>
          if code = 38 \<or> code = 48 then
            (if idx + 1 < length parts then
               (case py_int (parts ! (idx + 1)) of
                  Inl e \<Rightarrow> Inl e
                | Inr color_mode \<Rightarrow>
                    if color_mode = 5 \<and> idx + 2 < length parts then Inr (2, f)
                    else if color_mode = 2 \<and> idx + 4 < length parts then Inr (4, f)
                    else Inr (0, f))
             else Inr (0, f))
          else Inr (0, apply_sgr_code_v3 code f))"

function sgr_loop_v3 :: "string list \<Rightarrow> nat \<Rightarrow> style \<Rightarrow> error + style" where
  "sgr_loop_v3 parts idx f =
     (if idx < length parts then
        (case sgr_step_v3 parts idx f of
           Inl e \<Rightarrow> Inl e
         | Inr (skip, f') \<Rightarrow> sgr_loop_v3 parts (idx + skip + 1) f')
      else Inr f)"
  by pat_completeness auto
termination
  by (relation "measure (\<lambda>(parts, idx, f). length parts - idx)") auto

text \<open>
  \<open>parts = sgr.split(';') if sgr else ['0']\<close> followed by the loop from \<open>idx = 0\<close>.
\<close>

definition sgr_parts :: "string \<Rightarrow> string list" where
  "sgr_parts sgr = (if sgr \<noteq> [] then split_on (CHR '';'') sgr else [''0''])"

definition sgr_params :: "qfont option \<Rightarrow> string \<Rightarrow> style \<Rightarrow> error + style" where
  "sgr_params current_font sgr f = sgr_loop current_font (sgr_parts sgr) 0 f"

definition sgr_params_v3 :: "string \<Rightarrow> style \<Rightarrow> error + style" where
  "sgr_params_v3 sgr f = sgr_loop_v3 (sgr_parts sgr) 0 f"

section \<open>The escape-sequence pattern\<close>

text \<open>
  \<open>ansi_escape_regex\<close> is \<open>ESC\<close> followed by one of six alternatives, tried in this
  order: \<open>\[([\d;?]*)m\<close> (SGR), \<open>\]([012]);([^\x07\x1b]*)(?:\x07|\x1b\\)\<close> (OSC),
  \<open>\[([\d;]*)([HJK])\<close> (CSI cursor and erase), \<open>([()][012AB])\<close> (character set),
  \<open>([ENOM])\<close> (other modes), \<open>=\<close> or \<open>>\<close> (keypad modes). \<open>m.groups()\<close> is the
  seven groups in that order, \<open>None\<close> for a group that took no part in the match.

  In every alternative the character that must follow a starred class lies outside the
  class, so giving characters back never helps: the greedy match of the class is the
  longest run of class characters, and the alternative matches exactly when the
  required character comes next.
\<close>

record groups =
  g_sgr :: "string option"
  g_osc_t :: "string option"
  g_osc_c :: "string option"
  g_csi_p :: "string option"
  g_csi_l :: "string option"
  g_cs :: "string option"
  g_sc :: "string option"

definition no_groups :: groups where
  "no_groups =
     \<lparr>g_sgr = None, g_osc_t = None, g_osc_c = None, g_csi_p = None,
      g_csi_l = None, g_cs = None, g_sc = None\<rparr>"

definition sgr_class :: "char \<Rightarrow> bool" where
  "sgr_class c = (is_digit c \<or> c = CHR '';'' \<or> c = CHR ''?'')"

definition csi_class :: "char \<Rightarrow> bool" where
  "csi_class c = (is_digit c \<or> c = CHR '';'')"

definition osc_class :: "char \<Rightarrow> bool" where
  "osc_class c = (c \<noteq> BEL \<and> c \<noteq> ESC)"

text \<open>
  Each alternative is tried on the text after the \<open>ESC\<close>; it gives the groups and the
  number of characters it matched there.
\<close>

definition alt_sgr :: "string \<Rightarrow> (groups \<times> nat) option" where
  "alt_sgr cs =
     (case cs of
        c # r \<Rightarrow>
          if c = CHR ''['' then
            (let p = takeWhile sgr_class r in
             case drop (length p) r of
               m # _ \<Rightarrow>
                 if m = CHR ''m'' then Some (no_groups\<lparr>g_sgr := Some p\<rparr>, length p + 2)
                 else None
             | [] \<Rightarrow> None)
          else None
      | [] \<Rightarrow> None)"

definition alt_osc :: "string \<Rightarrow> (groups \<times> nat) option" where
  "alt_osc cs =
     (case cs of
        c # t # d # r \<Rightarrow>
          if c = CHR '']'' \<and> t \<in> set ''012'' \<and> d = CHR '';'' then
            (let p = takeWhile osc_class r;
                 g = no_groups\<lparr>g_osc_t := Some [t], g_osc_c := Some p\<rparr> in
             case drop (length p) r of
               x # r' \<Rightarrow>
                 if x = BEL then Some (g, length p + 4)
                 else if x = ESC then
                   (case r' of
                      y # _ \<Rightarrow> if y = CHR 0x5C then Some (g, length p + 5) else None
                    | [] \<Rightarrow> None)
                 else None
             | [] \<Rightarrow> None)
          else None
      | _ \<Rightarrow> None)"

definition alt_csi :: "string \<Rightarrow> (groups \<times> nat) option" where
  "alt_csi cs =
     (case cs of
        c # r \<Rightarrow>
          if c = CHR ''['' then
            (let p = takeWhile csi_class r in
             case drop (length p) r of
               l # _ \<Rightarrow>
                 if l \<in> set ''HJK''
                 then Some (no_groups\<lparr>g_csi_p := Some p, g_csi_l := Some [l]\<rparr>, length p + 2)
                 else None
             | [] \<Rightarrow> None)
          else None
      | [] \<Rightarrow> None)"

definition alt_cs :: "string \<Rightarrow> (groups \<times> nat) option" where
  "alt_cs cs =
     (case cs of
        a # b # _ \<Rightarrow>
          if a \<in> set ''()'' \<and> b \<in> set ''012AB''
          then Some (no_groups\<lparr>g_cs := Some [a, b]\<rparr>, 2)
          else None
      | _ \<Rightarrow> None)"

definition alt_sc :: "string \<Rightarrow> (groups \<times> nat) option" where
  "alt_sc cs =
     (case cs of
        a # _ \<Rightarrow> if a \<in> set ''ENOM'' then Some (no_groups\<lparr>g_sc := Some [a]\<rparr>, 1) else None
      | [] \<Rightarrow> None)"

definition alt_keypad :: "string \<Rightarrow> (groups \<times> nat) option" where
  "alt_keypad cs =
     (case cs of
        a # _ \<Rightarrow> if a = CHR ''='' \<or> a = CHR ''>'' then Some (no_groups, 1) else None
      | [] \<Rightarrow> None)"

definition first_of :: "'a option \<Rightarrow> 'a option \<Rightarrow> 'a option" where
  "first_of a b = (case a of Some x \<Rightarrow> Some x | None \<Rightarrow> b)"

text \<open>The pattern tried right after an \<open>ESC\<close>.\<close>

definition match_at :: "string \<Rightarrow> (groups \<times> nat) option" where
  "match_at cs =
     first_of (alt_sgr cs) (first_of (alt_osc cs) (first_of (alt_csi cs)
       (first_of (alt_cs cs) (first_of (alt_sc cs) (alt_keypad cs)))))"

text \<open>
  \<open>ansi_escape_regex.finditer(text)\<close>: the matches from left to right, each with its span
  \<open>(s, e)\<close> and its groups. The search tries every position in turn and, after a match,
  goes on where the match ended.
\<close>

fun finditer_from :: "nat \<Rightarrow> string \<Rightarrow> (nat \<times> nat \<times> groups) list" where
  "finditer_from pos [] = []"
| "finditer_from pos (c # cs) =
     (if c = ESC then
        (case match_at cs of
           Some (g, n) \<Rightarrow> (pos, pos + 1 + n, g) # finditer_from (pos + 1 + n) (drop n cs)
         | None \<Rightarrow> finditer_from (pos + 1) cs)
      else finditer_from (pos + 1) cs)"

definition finditer :: "string \<Rightarrow> (nat \<times> nat \<times> groups) list" where
  "finditer text = finditer_from 0 text"

text \<open>\<open>text[a:b]\<close> for \<open>0 \<le> a\<close> and \<open>0 \<le> b\<close>.\<close>

definition slice :: "string \<Rightarrow> nat \<Rightarrow> nat \<Rightarrow> string" where
  "slice text a b = take (b - a) (drop a text)"

section \<open>The terminal widget\<close>

datatype key =
    Key_Backspace | Key_Delete | Key_Return | Key_Enter
  | Key_Left | Key_Right | Key_Up | Key_Down
  | Key_PageUp | Key_PageDown | Key_Home | Key_End
  | Key_C | Key_Other

text \<open>
  A key event: the key, whether Control and Shift are held, and the text the key types.
  Two things the editor finds outside the session come with the event: for a navigation
  key and for the deletion of a word, the position that the editor's cursor motion
  reaches (\<open>ev_target\<close>); for a shortcut that edits (undo, redo, cut, paste, select all),
  the text, the cursor position and the anchor it leaves (\<open>ev_outcome\<close>), which depend
  on the undo stack and the clipboard.
\<close>

record key_event =
  ev_key :: key
  ev_ctrl :: bool
  ev_shift :: bool
  ev_text :: string
  ev_target :: nat
  ev_outcome :: "string \<times> nat \<times> nat"

text \<open>What the widget does to the world outside it, in the order it does it.\<close>

datatype effect =
    Inserted string style
  | TitleChanged string
  | Cleared
  | Started string "string list"
  | Written string
  | Forwarded key_event

text \<open>
  The fields of \<open>TerminalWidget\<close> and, of the \<open>QTextEdit\<close> it extends, the plain text
  of the document and the text cursor (position and anchor; there is a selection when
  they differ). \<open>Inserted\<close> is \<open>insertPlainText\<close> with the format it was given by
  \<open>setCurrentCharFormat\<close>, \<open>Written\<close> is \<open>process.write\<close> with the text before its
  encoding, \<open>Started\<close> is \<open>process.start\<close>, \<open>Forwarded\<close> is a key event passed on to
  \<open>QTextEdit.keyPressEvent\<close>.
\<close>

record session =
  terminal_id :: string
  current_font :: "qfont option"
  current_format :: style
  doc :: string
  position :: nat
  anchor :: nat
  input_start_pos :: nat
  process_running :: bool
  restart_count :: int
  last_started :: real
  effects :: "effect list"

definition has_selection :: "session \<Rightarrow> bool" where
  "has_selection s = (anchor s \<noteq> position s)"

text \<open>\<open>moveCursor(QTextCursor.MoveOperation.End)\<close>.\<close>

definition move_cursor_end :: "session \<Rightarrow> session" where
  "move_cursor_end s = s\<lparr>position := length (doc s), anchor := length (doc s)\<rparr>"

text \<open>
  Typing text at the cursor: the selection, if any, is replaced, and the cursor ends
  behind the new text. The text is taken as it is; the line-break normalisation of
  \<open>QTextEdit\<close> is not modelled.
\<close>

definition edit_insert :: "string \<Rightarrow> session \<Rightarrow> session" where
  "edit_insert t s =
     (let lo = min (anchor s) (position s);
          hi = max (anchor s) (position s)
      in s\<lparr>doc := take lo (doc s) @ t @ drop hi (doc s),
            position := lo + length t, anchor := lo + length t\<rparr>)"

text \<open>\<open>setCurrentCharFormat(self.current_format)\<close> and \<open>insertPlainText(t)\<close>.\<close>

definition insert_plain_text :: "string \<Rightarrow> session \<Rightarrow> session" where
  "insert_plain_text t s =
     edit_insert t (s\<lparr>effects := effects s @ [Inserted t (current_format s)]\<rparr>)"

text \<open>\<open>self.clear()\<close>.\<close>

definition clear_doc :: "session \<Rightarrow> session" where
  "clear_doc s = s\<lparr>doc := [], position := 0, anchor := 0, effects := effects s @ [Cleared]\<rparr>"

text \<open>Python's truth value of a group: neither \<open>None\<close> nor the empty string.\<close>

definition truthy :: "string option \<Rightarrow> bool" where
  "truthy x = (case x of None \<Rightarrow> False | Some v \<Rightarrow> v \<noteq> [])"

text \<open>The body of the \<open>for m in ...finditer(text)\<close> loop after the segment before the match
  has been inserted: the chain of \<open>if sgr is not None\<close>, \<open>elif osc_t and osc_c\<close>,
  \<open>elif csi_p is not None and csi_l is not None\<close>.\<close>

definition handle_match :: "groups \<Rightarrow> session \<Rightarrow> error + session" where
  "handle_match g s =
     (case g_sgr g of
        Some sgr \<Rightarrow>
          (case sgr_params (current_font s) sgr (current_format s) of
             Inl e \<Rightarrow> Inl e
           | Inr f \<Rightarrow> Inr (s\<lparr>current_format := f\<rparr>))
      | None \<Rightarrow>
          if truthy (g_osc_t g) \<and> truthy (g_osc_c g) then
            (case (g_osc_t g, g_osc_c g) of
               (Some osc_t, Some osc_c) \<Rightarrow>
                 if osc_t \<in> set [''0'', ''1'', ''2'']
                 then Inr (s\<lparr>effects := effects s @ [TitleChanged osc_c]\<rparr>)
                 else Inr s
             | _ \<Rightarrow> Inr s)
          else if g_csi_p g \<noteq> None \<and> g_csi_l g \<noteq> None then
            (if g_csi_l g = Some ''J'' then
               (if g_csi_p g = Some ''2'' then
                  (let s1 = clear_doc s in
                   Inr (s1\<lparr>current_format :=
                          reset_char_format_to_default (current_font s1) (current_format s1)\<rparr>))
                else Inr s)
             else Inr s)
          else Inr s)"

text \<open>The \<open>for\<close> loop of \<open>append_ansi_text\<close>; \<open>last_e\<close> is its variable \<open>last\<close>.\<close>

fun ansi_loop :: "string \<Rightarrow> (nat \<times> nat \<times> groups) list \<Rightarrow> nat \<Rightarrow> session \<Rightarrow> error + (nat \<times> session)" where
  "ansi_loop text [] last_e s = Inr (last_e, s)"
| "ansi_loop text ((b, e, g) # ms) last_e s =
     (let s1 = (if b > last_e then insert_plain_text (slice text last_e b) s else s) in
      case handle_match g s1 of
        Inl err \<Rightarrow> Inl err
      | Inr s2 \<Rightarrow> ansi_loop text ms e s2)"

definition append_ansi_text :: "string \<Rightarrow> session \<Rightarrow> error + session" where
  "append_ansi_text text s =
     (case ansi_loop text (finditer text) 0 (move_cursor_end s) of
        Inl err \<Rightarrow> Inl err
      | Inr (last_e, s1) \<Rightarrow>
          (let s2 = (if last_e < length text then insert_plain_text (drop last_e text) s1 else s1);
               s3 = move_cursor_end s2
           in Inr (s3\<lparr>input_start_pos := position s3\<rparr>)))"

section \<open>Process supervision\<close>

text \<open>
  What \<open>start_process\<close> reads from outside the widget: \<open>time.time()\<close> (seconds, taken
  as a real number: the rounding of floating-point subtraction is not modelled),
  \<open>shutil.which\<close>, \<open>os.path.basename\<close>, and whether \<open>process.waitForStarted(3000)\<close>
  reported a start.
\<close>

record env =
  env_now :: real
  env_which :: "string \<Rightarrow> string option"
  env_basename :: "string \<Rightarrow> string"
  env_started :: bool

text \<open>
  The two symbols of the messages that lie outside the 8-bit characters, the warning
  sign (U+26A0 U+FE0F) and the cross mark (U+274C), are written as their UTF-8 bytes.
\<close>

definition WARNING_SIGN :: string where
  "WARNING_SIGN = [CHR 0xE2, CHR 0x9A, CHR 0xA0, CHR 0xEF, CHR 0xB8, CHR 0x8F]"

definition CROSS_MARK :: string where
  "CROSS_MARK = [CHR 0xE2, CHR 0x9D, CHR 0x8C]"

definition red :: "string \<Rightarrow> string" where
  "red msg = ESC # ''[31m'' @ msg @ ESC # ''[0m'' @ [NL]"

text \<open>\<open>a or b\<close> on values that are \<open>None\<close> or a string.\<close>

definition py_or :: "string option \<Rightarrow> string option \<Rightarrow> string option" where
  "py_or a b = (if truthy a then a else b)"

text \<open>\<open>s.lower()\<close>, on the letters \<open>A\<close> to \<open>Z\<close>, and \<open>sub in s\<close>.\<close>

definition lower_char :: "char \<Rightarrow> char" where
  "lower_char c =
     (if c \<in> set ''ABCDEFGHIJKLMNOPQRSTUVWXYZ'' then char_of (of_char c + (32::nat)) else c)"

fun contains :: "string \<Rightarrow> string \<Rightarrow> bool" where
  "contains sub [] = (sub = [])"
| "contains sub (c # cs) = (take (length sub) (c # cs) = sub \<or> contains sub cs)"

text \<open>\<open>' '.join(args)\<close>.\<close>

fun join_space :: "string list \<Rightarrow> string" where
  "join_space [] = []"
| "join_space [a] = a"
| "join_space (a # b # bs) = a @ '' '' @ join_space (b # bs)"

text \<open>
  \<open>shutil.which("bash") or shutil.which("powershell.exe") or shutil.which("cmd.exe")\<close>,
  and the arguments chosen by \<open>'bash' in shell_executable.lower()\<close>.
\<close>

definition find_shell :: "env \<Rightarrow> string option" where
  "find_shell e =
     py_or (py_or (env_which e ''bash'') (env_which e ''powershell.exe''))
           (env_which e ''cmd.exe'')"

definition shell_args :: "string \<Rightarrow> string list" where
  "shell_args sh = (if contains ''bash'' (map lower_char sh) then [''--login'', ''-i''] else [])"

text \<open>
  \<open>start_process\<close> from \<open>self.last_started = now\<close> to its end; \<open>if not
  shell_executable\<close> holds for \<open>None\<close> and for the empty string.
\<close>

definition launch_shell :: "env \<Rightarrow> session \<Rightarrow> error + session" where
  "launch_shell e s0 =
     (let s = s0\<lparr>last_started := env_now e\<rparr>;
          no_shell = red (WARNING_SIGN @ '' ['' @ terminal_id s
                            @ ''] No shell found (bash, powershell, cmd).'')
      in case find_shell e of
           None \<Rightarrow> append_ansi_text no_shell s
         | Some sh \<Rightarrow>
             if sh = [] then append_ansi_text no_shell s
             else
               (let args = shell_args sh in
                case append_ansi_text
                       (''['' @ terminal_id s @ ''] Starting '' @ env_basename e sh @ '' ''
                          @ join_space args @ ''...'' @ [NL]) s of
                  Inl err \<Rightarrow> Inl err
                | Inr s1 \<Rightarrow>
                    (let s2 = s1\<lparr>effects := effects s1 @ [Started sh args]\<rparr> in
                     if \<not> env_started e then
                       (case append_ansi_text
                               (red (WARNING_SIGN @ '' Failed to start shell: ''
                                       @ env_basename e sh @ ''.'')) s2 of
                          Inl err \<Rightarrow> Inl err
                        | Inr s3 \<Rightarrow> Inr (s3\<lparr>process_running := False\<rparr>))
                     else Inr (s2\<lparr>process_running := True\<rparr>))))"

definition start_process :: "env \<Rightarrow> session \<Rightarrow> error + session" where
  "start_process e s =
     (if process_running s then Inr s
      else if 0 < env_now e - last_started s \<and> env_now e - last_started s < 2 then
        (let s1 = s\<lparr>restart_count := restart_count s + 1\<rparr> in
         if restart_count s1 > 3 then
           append_ansi_text
             (red (WARNING_SIGN @ '' ['' @ terminal_id s1 @ ''] Too many restarts. Shell disabled.'')) s1
         else launch_shell e s1)
      else launch_shell e (s\<lparr>restart_count := 0\<rparr>))"

text \<open>\<open>send_command(cmd, append_enter)\<close>.\<close>

definition send_command :: "string \<Rightarrow> bool \<Rightarrow> session \<Rightarrow> error + session" where
  "send_command cmd append_enter s =
     (if process_running s then
        (let s1 = move_cursor_end s;
             data = cmd @ (if append_enter then [NL] else [])
         in Inr (s1\<lparr>effects := effects s1 @ [Written data]\<rparr>))
      else
        append_ansi_text
          (red (''['' @ terminal_id s @ ''] '' @ CROSS_MARK @ '' Not running. Cannot send command.'')) s)"

section \<open>The input line discipline\<close>

text \<open>Removing the selected text; the cursor ends where the selection began.\<close>

definition remove_selected :: "session \<Rightarrow> session" where
  "remove_selected s = edit_insert [] s"

definition is_nav_key :: "key \<Rightarrow> bool" where
  "is_nav_key k =
     (k \<in> set [Key_Left, Key_Right, Key_Up, Key_Down, Key_PageUp, Key_PageDown, Key_Home, Key_End])"

text \<open>
  \<open>QTextEdit.keyPressEvent\<close>, which the widget reaches as \<open>super().keyPressEvent(ev)\<close>.
  Without Control: Backspace removes the selection or else the character before the
  cursor; Delete removes the selection or else the character after the cursor (with
  Shift it is the cut shortcut, which removes the selection only); Return and Enter type
  a line break; any other key types its text. With Control: Backspace removes the text
  back to the start of the word and Delete the text up to the end of the word, each from
  the anchor to the position the word motion reaches; Return and Enter are ignored, as
  is a word deletion with Shift held as well; Control-C copies; any other key is a
  shortcut with the outcome given by the event. A navigation key moves the cursor,
  keeping the anchor when Shift is held.
\<close>

definition qt_keyPressEvent :: "key_event \<Rightarrow> session \<Rightarrow> session" where
  "qt_keyPressEvent ev s0 =
     (let s = s0\<lparr>effects := effects s0 @ [Forwarded ev]\<rparr> in
      if ev_key ev = Key_Backspace then
        (if ev_ctrl ev then
           (if ev_shift ev then s
            else edit_insert [] (s\<lparr>position := min (ev_target ev) (position s)\<rparr>))
         else if has_selection s then remove_selected s
         else if 0 < position s \<and> position s \<le> length (doc s) then
           s\<lparr>doc := take (position s - 1) (doc s) @ drop (position s) (doc s),
             position := position s - 1, anchor := position s - 1\<rparr>
         else s)
      else if ev_key ev = Key_Delete then
        (if ev_ctrl ev then
           (if ev_shift ev then s
            else edit_insert []
                   (s\<lparr>position := max (position s) (min (ev_target ev) (length (doc s)))\<rparr>))
         else if has_selection s then remove_selected s
         else if ev_shift ev then s
         else s\<lparr>doc := take (position s) (doc s) @ drop (position s + 1) (doc s)\<rparr>)
      else if ev_key ev = Key_Return \<or> ev_key ev = Key_Enter then
        (if ev_ctrl ev then s else edit_insert [NL] s)
      else if is_nav_key (ev_key ev) then
        (let p = min (ev_target ev) (length (doc s)) in
         s\<lparr>position := p, anchor := (if ev_shift ev then anchor s else p)\<rparr>)
      else if ev_key ev = Key_C \<and> ev_ctrl ev then s
      else if ev_ctrl ev then
        (case ev_outcome ev of
           (d, p, a) \<Rightarrow> s\<lparr>doc := d, position := p, anchor := a\<rparr>)
      else edit_insert (ev_text ev) s)"

text \<open>
  The branch of \<open>keyPressEvent\<close> for Return and Enter: the cursor goes to the end, the
  text from \<open>input_start_pos\<close> on is stripped of trailing line breaks and written to the
  process or, when none runs, a message is rendered; then the key goes to the editor
  and the input boundary becomes the cursor position.
\<close>

definition submit_line :: "key_event \<Rightarrow> session \<Rightarrow> error + session" where
  "submit_line ev s0 =
     (let s = move_cursor_end s0;
          txt_to_send = drop (input_start_pos s) (doc s);
          cmd = rstrip_nl txt_to_send
      in case (if process_running s
               then Inr (s\<lparr>effects := effects s @ [Written (cmd @ [NL])]\<rparr>)
               else append_ansi_text (ESC # ''[31mShell not running.'' @ ESC # ''[0m'' @ [NL]) s) of
           Inl err \<Rightarrow> Inl err
         | Inr s1 \<Rightarrow>
             (let s2 = qt_keyPressEvent ev s1 in Inr (s2\<lparr>input_start_pos := position s2\<rparr>)))"

text \<open>
  \<open>keyPressEvent\<close> of term66.py. \<open>cursor\<close> is the copy of the text cursor taken in the
  first line, so \<open>cursor.hasSelection()\<close> is the selection state at entry.
\<close>

definition keyPressEvent :: "key_event \<Rightarrow> session \<Rightarrow> error + session" where
  "keyPressEvent ev s0 =
     (if ev_key ev = Key_C \<and> ev_ctrl ev then
        (if process_running s0 then
           (if has_selection s0 then Inr (qt_keyPressEvent ev s0)
            else Inr (s0\<lparr>effects := effects s0 @ [Written [CHR 0x03]]\<rparr>))
         else Inr (qt_keyPressEvent ev s0))
      else
        (let cursor_hasSelection = has_selection s0;
             s = (if \<not> cursor_hasSelection then move_cursor_end s0 else s0);
             current_cursor_pos = position s
         in if ev_key ev = Key_Backspace then
              (if cursor_hasSelection \<or> current_cursor_pos > input_start_pos s
               then Inr (qt_keyPressEvent ev s) else Inr s)
            else if ev_key ev = Key_Delete then
              (if cursor_hasSelection \<or> current_cursor_pos \<ge> input_start_pos s
               then Inr (qt_keyPressEvent ev s) else Inr s)
            else if \<not> cursor_hasSelection \<and> current_cursor_pos < input_start_pos s then
              (if is_nav_key (ev_key ev) then Inr (qt_keyPressEvent ev s) else Inr s)
            else if ev_key ev = Key_Return \<or> ev_key ev = Key_Enter then submit_line ev s
            else Inr (qt_keyPressEvent ev s)))"

text \<open>A run of key events, stopping at the first exception.\<close>

fun key_presses :: "key_event list \<Rightarrow> session \<Rightarrow> error + session" where
  "key_presses [] s = Inr s"
| "key_presses (ev # evs) s =
     (case keyPressEvent ev s of Inl err \<Rightarrow> Inl err | Inr s1 \<Rightarrow> key_presses evs s1)"

section \<open>Observers used in the statements\<close>

text \<open>The text handed to \<open>insertPlainText\<close>, in order.\<close>

fun inserted_text :: "effect list \<Rightarrow> string" where
  "inserted_text [] = []"
| "inserted_text (Inserted t f # es) = t @ inserted_text es"
| "inserted_text (_ # es) = inserted_text es"

text \<open>The calls made on the child process, in order.\<close>

fun process_calls :: "effect list \<Rightarrow> effect list" where
  "process_calls [] = []"
| "process_calls (Started sh args # es) = Started sh args # process_calls es"
| "process_calls (Written d # es) = Written d # process_calls es"
| "process_calls (_ # es) = process_calls es"


text \<open>The three shapes of what handling a match does to the session.\<close>

definition match_effect :: "session \<Rightarrow> session \<Rightarrow> bool" where
  "match_effect s s' =
     ((\<exists>f. s' = s\<lparr>current_format := f\<rparr>)
      \<or> (\<exists>t. s' = s\<lparr>effects := effects s @ [TitleChanged t]\<rparr>)
      \<or> s' = (clear_doc s)\<lparr>current_format := default_style\<rparr>)"

text \<open>What rendering output leaves alone: the process state and the calls on the process.\<close>

definition frame :: "session \<Rightarrow> session \<Rightarrow> bool" where
  "frame s s' =
     (terminal_id s' = terminal_id s \<and> current_font s' = current_font s
      \<and> process_running s' = process_running s \<and> restart_count s' = restart_count s
      \<and> last_started s' = last_started s
      \<and> process_calls (effects s') = process_calls (effects s))"


section \<open>Concrete sessions and chunks\<close>

text \<open>A session as the constructor leaves it, with the identifier \<open>Term1\<close>.\<close>

definition s_init :: session where
  "s_init =
     \<lparr>terminal_id = ''Term1'', current_font = None, current_format = default_style,
      doc = [], position = 0, anchor = 0, input_start_pos = 0, process_running = False,
      restart_count = 0, last_started = 0, effects = []\<rparr>"


text \<open>
  \<open>current_cursor_pos\<close> of \<open>keyPressEvent\<close>: the cursor position after the cursor was
  moved to the end unless there is a selection.
\<close>

definition edit_point :: "session \<Rightarrow> nat" where
  "edit_point s = (if has_selection s then position s else length (doc s))"

text \<open>
  A running session that shows \<open>prompt> ls -la\<close> and a line break, with the cursor at
  the end and the input boundary as given.
\<close>

definition s_ls :: "nat \<Rightarrow> session" where
  "s_ls boundary =
     s_init\<lparr>doc := ''prompt> ls -la'' @ [NL], position := 15, anchor := 15,
            input_start_pos := boundary, process_running := True\<rparr>"

definition enter_ev :: key_event where
  "enter_ev =
     \<lparr>ev_key = Key_Return, ev_ctrl = False, ev_shift = False, ev_text = [NL], ev_target = 0,
      ev_outcome = ([], 0, 0)\<rparr>"

definition backspace_ev :: key_event where
  "backspace_ev =
     \<lparr>ev_key = Key_Backspace, ev_ctrl = False, ev_shift = False, ev_text = [], ev_target = 0,
      ev_outcome = ([], 0, 0)\<rparr>"

definition delete_ev :: key_event where
  "delete_ev =
     \<lparr>ev_key = Key_Delete, ev_ctrl = False, ev_shift = False, ev_text = [], ev_target = 0,
      ev_outcome = ([], 0, 0)\<rparr>"

text \<open>
  Control-Backspace for which the editor finds the start of the word at position 0, and
  a session that shows the prompt \<open>$\<close> and a blank, followed by one blank that was typed.
\<close>

definition ctrl_backspace_ev :: key_event where
  "ctrl_backspace_ev =
     \<lparr>ev_key = Key_Backspace, ev_ctrl = True, ev_shift = False, ev_text = [], ev_target = 0,
      ev_outcome = ([], 0, 0)\<rparr>"

definition s_blank :: session where
  "s_blank = s_init\<lparr>doc := ''$  '', position := 3, anchor := 3, input_start_pos := 2\<rparr>"

text \<open>An OSC sequence that sets the title \<open>My Title\<close>, and one with an empty payload.\<close>

definition title_chunk :: string where
  "title_chunk = ESC # '']0;My Title'' @ [BEL]"

definition empty_title_chunk :: string where
  "empty_title_chunk = ESC # '']0;'' @ [BEL]"

text \<open>A session that shows \<open>$ ab\<close>, of which \<open>ab\<close> is the line being typed.\<close>

definition s_hist :: session where
  "s_hist = s_init\<lparr>doc := ''$ ab'', position := 4, anchor := 4, input_start_pos := 2\<rparr>"

text \<open>
  A run of start attempts, one environment for each, stopping at the first exception;
  and what the throttle is about: the counter, the time stamp, the running flag and the
  calls made on the process.
\<close>

fun start_attempts :: "env list \<Rightarrow> session \<Rightarrow> error + session" where
  "start_attempts [] s = Inr s"
| "start_attempts (e # es) s =
     (case start_process e s of Inl err \<Rightarrow> Inl err | Inr s1 \<Rightarrow> start_attempts es s1)"

definition throttle_view :: "error + session \<Rightarrow> (int \<times> real \<times> bool \<times> effect list) option" where
  "throttle_view r =
     (case r of
        Inl err \<Rightarrow> None
      | Inr s \<Rightarrow> Some (restart_count s, last_started s, process_running s,
                         process_calls (effects s)))"

text \<open>
  An environment in which \<open>bash\<close> is found at \<open>/bin/bash\<close>, with the clock and the answer
  of \<open>waitForStarted\<close> as given; \<open>os.path.basename\<close> is the one of POSIX.
\<close>

definition which_bash :: "string \<Rightarrow> string option" where
  "which_bash name = (if name = ''bash'' then Some ''/bin/bash'' else None)"

definition posix_basename :: "string \<Rightarrow> string" where
  "posix_basename p = rev (takeWhile (\<lambda>c. c \<noteq> CHR ''/'') (rev p))"

definition env_at :: "real \<Rightarrow> bool \<Rightarrow> env" where
  "env_at t ok =
     \<lparr>env_now = t, env_which = which_bash, env_basename = posix_basename, env_started = ok\<rparr>"

text \<open>
  A session whose counter stands at 3 after a start at time 1003, and the call that
  starts \<open>/bin/bash\<close> as a login shell.
\<close>

definition s_throttled :: session where
  "s_throttled = s_init\<lparr>restart_count := 3, last_started := 1003\<rparr>"

definition bash_started :: effect where
  "bash_started = Started ''/bin/bash'' [''--login'', ''-i'']"





section \<open>Properties of the SGR interpreter\<close>

declare sgr_loop.simps [simp del] sgr_loop_v3.simps [simp del]

lemma reset_is_default: "reset_char_format_to_default fnt f = default_style"
  by (cases fnt)
     (simp_all add: reset_char_format_to_default_def default_style_def Let_def)

text \<open>
  Claim C5. Whatever SGR codes \<open>S\<close> were applied to whatever starting format, and
  whatever the widget's font is (also when it changed in between), applying code 0
  afterwards gives the default format: default foreground and background, normal
  weight, no italic, no underline. An empty parameter string is handled as the single
  parameter \<open>0\<close> and gives the same format.
\<close>

theorem sgr_reset_yields_default:
  "apply_sgr_code fnt 0 (fold (apply_sgr_code font_before) S f) = default_style
   \<and> sgr_params fnt [] f = Inr default_style
   \<and> sgr_params fnt [] f = sgr_params fnt ''0'' f"
  by (simp add: apply_sgr_code_def reset_is_default sgr_params_def sgr_parts_def
      sgr_loop.simps sgr_step_def py_int_def is_digit_def digit_val_def)

section \<open>Totality of the renderer and what it leaves alone\<close>

lemma sgr_step_total: "\<exists>k f'. sgr_step fnt parts idx f = Inr (k, f')"
  by (auto simp: sgr_step_def Let_def split: sum.splits error.splits)

lemma sgr_loop_total: "\<exists>f'. sgr_loop fnt parts idx f = Inr f'"
proof (induction fnt parts idx f rule: sgr_loop.induct)
  case (1 fnt parts idx f)
  show ?case
  proof (cases "idx < length parts")
    case True
    obtain k f1 where st: "sgr_step fnt parts idx f = Inr (k, f1)"
      using sgr_step_total by blast
    from "1.IH"[OF True st refl] st True show ?thesis
      by (subst sgr_loop.simps) simp
  next
    case False
    then show ?thesis by (subst sgr_loop.simps) simp
  qed
qed

lemma sgr_params_total: "\<exists>f'. sgr_params fnt sgr f = Inr f'"
  by (simp add: sgr_params_def sgr_loop_total)

lemma handle_match_cases: "\<exists>s'. handle_match g s = Inr s' \<and> match_effect s s'"
proof (cases "g_sgr g")
  case (Some sgr)
  obtain f' where "sgr_params (current_font s) sgr (current_format s) = Inr f'"
    using sgr_params_total by blast
  with Some show ?thesis by (auto simp: handle_match_def match_effect_def)
next
  case None
  have "s = s\<lparr>current_format := current_format s\<rparr>" by simp
  then have same: "match_effect s s" unfolding match_effect_def by blast
  from None show ?thesis
    by (auto simp: handle_match_def truthy_def reset_is_default Let_def same
        match_effect_def[of s "_\<lparr>effects := _\<rparr>"] match_effect_def[of s "_\<lparr>current_format := default_style\<rparr>"]
        split: option.splits)
qed

lemma inserted_text_append [simp]:
  "inserted_text (xs @ ys) = inserted_text xs @ inserted_text ys"
  by (induction xs rule: inserted_text.induct) simp_all

lemma process_calls_append [simp]:
  "process_calls (xs @ ys) = process_calls xs @ process_calls ys"
  by (induction xs rule: process_calls.induct) simp_all

lemma match_effect_frame: "match_effect s s' \<Longrightarrow> frame s s'"
  by (auto simp: match_effect_def frame_def clear_doc_def)

lemma match_effect_at_end:
  "match_effect s s' \<Longrightarrow> position s = length (doc s) \<Longrightarrow> anchor s = length (doc s)
   \<Longrightarrow> position s' = length (doc s') \<and> anchor s' = length (doc s')"
  by (auto simp: match_effect_def clear_doc_def)


lemma insert_plain_text_frame: "frame s (insert_plain_text t s)"
  by (simp add: frame_def insert_plain_text_def edit_insert_def Let_def)

lemma frame_trans: "frame a b \<Longrightarrow> frame b c \<Longrightarrow> frame a c"
  by (simp add: frame_def)

lemma frame_refl: "frame a a"
  by (simp add: frame_def)

lemma insert_plain_text_at_end:
  "position s = length (doc s) \<Longrightarrow> anchor s = length (doc s) \<Longrightarrow>
   doc (insert_plain_text t s) = doc s @ t
   \<and> position (insert_plain_text t s) = length (doc (insert_plain_text t s))
   \<and> anchor (insert_plain_text t s) = length (doc (insert_plain_text t s))"
  by (simp add: insert_plain_text_def edit_insert_def Let_def)


lemma ansi_loop_props:
  "\<exists>l s'. ansi_loop text ms last_e s = Inr (l, s') \<and> frame s s'
     \<and> (position s = length (doc s) \<and> anchor s = length (doc s)
        \<longrightarrow> position s' = length (doc s') \<and> anchor s' = length (doc s'))"
proof (induction ms arbitrary: last_e s)
  case Nil
  show ?case by (simp add: frame_refl)
next
  case (Cons m ms)
  obtain b e g where m: "m = (b, e, g)" by (cases m) auto
  define s1 where "s1 = (if b > last_e then insert_plain_text (slice text last_e b) s else s)"
  have f1: "frame s s1" by (simp add: s1_def insert_plain_text_frame frame_refl)
  have e1: "position s = length (doc s) \<and> anchor s = length (doc s)
        \<longrightarrow> position s1 = length (doc s1) \<and> anchor s1 = length (doc s1)"
    by (simp add: s1_def insert_plain_text_at_end)
  obtain s2 where h: "handle_match g s1 = Inr s2" and me: "match_effect s1 s2"
    using handle_match_cases by blast
  from Cons.IH[of e s2] obtain l s' where
    r: "ansi_loop text ms e s2 = Inr (l, s')" and f3: "frame s2 s'"
    and e3: "position s2 = length (doc s2) \<and> anchor s2 = length (doc s2)
        \<longrightarrow> position s' = length (doc s') \<and> anchor s' = length (doc s')"
    by blast
  have "ansi_loop text (m # ms) last_e s = Inr (l, s')"
    using h r by (simp add: m s1_def[symmetric] Let_def)
  moreover have "frame s s'"
    using f1 match_effect_frame[OF me] f3 frame_trans by blast
  moreover have "position s = length (doc s) \<and> anchor s = length (doc s)
        \<longrightarrow> position s' = length (doc s') \<and> anchor s' = length (doc s')"
    using e1 e3 match_effect_at_end[OF me] by blast
  ultimately show ?case by blast
qed

lemma append_ansi_text_props:
  "\<exists>s'. append_ansi_text text s = Inr s' \<and> frame s s'
     \<and> input_start_pos s' = length (doc s') \<and> position s' = length (doc s')
     \<and> anchor s' = length (doc s')"
proof -
  obtain l s1 where r: "ansi_loop text (finditer text) 0 (move_cursor_end s) = Inr (l, s1)"
    and f: "frame (move_cursor_end s) s1"
    using ansi_loop_props by blast
  have f0: "frame s (move_cursor_end s)" by (simp add: frame_def move_cursor_end_def)
  define s2 where "s2 = (if l < length text then insert_plain_text (drop l text) s1 else s1)"
  have f2: "frame s1 s2" by (simp add: s2_def insert_plain_text_frame frame_refl)
  have "frame s s2" using f0 f f2 frame_trans by blast
  then show ?thesis
    using r by (simp add: append_ansi_text_def s2_def[symmetric] Let_def move_cursor_end_def frame_def)
qed

section \<open>The spans of the matches\<close>

















section \<open>Resynchronisation and the emitted text\<close>






section \<open>The parser: totality, ordinary text, resynchronisation\<close>

lemmas match_defs = match_at_def first_of_def alt_sgr_def alt_osc_def alt_csi_def alt_cs_def
  alt_sc_def alt_keypad_def sgr_class_def csi_class_def osc_class_def is_digit_def no_groups_def
  ESC_def BEL_def




section \<open>The SGR parameter loop\<close>

lemma sgr_step_shift:
  assumes "idx < length parts"
  shows "sgr_step fnt (pre @ parts) (length pre + idx) f = sgr_step fnt parts idx f"
proof -
  have a: "(pre @ parts) ! (length pre + idx) = parts ! idx" by simp
  have b: "(pre @ parts) ! (length pre + idx + 1) = parts ! (idx + 1)"
    by (simp add: nth_append)
  have c: "length pre + idx + k < length (pre @ parts) \<longleftrightarrow> idx + k < length parts" for k
    by auto
  show ?thesis unfolding sgr_step_def a b c ..
qed

lemma sgr_loop_shift:
  "sgr_loop fnt (pre @ parts) (length pre + idx) f = sgr_loop fnt parts idx f"
proof (induction fnt parts idx f rule: sgr_loop.induct)
  case (1 fnt parts idx f)
  show ?case
  proof (cases "idx < length parts")
    case False
    have "sgr_loop fnt (pre @ parts) (length pre + idx) f = Inr f"
      using False by (subst sgr_loop.simps) simp
    moreover have "sgr_loop fnt parts idx f = Inr f"
      using False by (subst sgr_loop.simps) simp
    ultimately show ?thesis by simp
  next
    case True
    obtain k f1 where st: "sgr_step fnt parts idx f = Inr (k, f1)"
      using sgr_step_total by blast
    have "sgr_loop fnt (pre @ parts) (length pre + idx) f
          = sgr_loop fnt (pre @ parts) (length pre + (idx + k + 1)) f1"
      using True st by (subst sgr_loop.simps) (simp add: sgr_step_shift add.assoc)
    also have "\<dots> = sgr_loop fnt parts (idx + k + 1) f1"
      using "1.IH"[OF True st refl] .
    also have "\<dots> = sgr_loop fnt parts idx f"
      using True st by (subst (2) sgr_loop.simps) simp
    finally show ?thesis .
  qed
qed

lemma sgr_loop_drop: "sgr_loop fnt parts idx f = sgr_loop fnt (drop idx parts) 0 f"
proof (cases "idx \<le> length parts")
  case True
  have "sgr_loop fnt (take idx parts @ drop idx parts) (length (take idx parts) + 0) f
        = sgr_loop fnt (drop idx parts) 0 f"
    by (rule sgr_loop_shift)
  then show ?thesis using True by simp
next
  case False
  have "sgr_loop fnt parts idx f = Inr f"
    using False by (subst sgr_loop.simps) simp
  moreover have "sgr_loop fnt (drop idx parts) 0 f = Inr f"
    using False by (subst sgr_loop.simps) simp
  ultimately show ?thesis by simp
qed

lemmas sgr_eval = sgr_params_def sgr_parts_def sgr_loop.simps sgr_step_def py_int_def
  is_digit_def digit_val_def apply_sgr_code_def ANSI_SGR_CODES_TO_COLORS_def default_style_def

lemma sgr_loop_skips_malformed:
  assumes "idx < length parts" and "parts ! idx \<noteq> []" and "py_int (parts ! idx) = Inl ValueError"
  shows "sgr_loop fnt parts idx f = sgr_loop fnt (drop (idx + 1) parts) 0 f"
proof -
  have "sgr_step fnt parts idx f = Inr (0, f)" using assms by (simp add: sgr_step_def)
  then have "sgr_loop fnt parts idx f = sgr_loop fnt parts (idx + 1) f"
    using assms(1) by (subst sgr_loop.simps) simp
  then show ?thesis using sgr_loop_drop[of fnt parts "idx + 1" f] by simp
qed

lemma sgr_loop_applies_code:
  assumes "idx < length parts" and "py_int (parts ! idx) = Inr code" and "code \<noteq> 38" and "code \<noteq> 48"
  shows "sgr_loop fnt parts idx f = sgr_loop fnt (drop (idx + 1) parts) 0 (apply_sgr_code fnt code f)"
proof -
  have ne: "parts ! idx \<noteq> []" using assms(2) by (auto simp: py_int_def)
  have "sgr_step fnt parts idx f = Inr (0, apply_sgr_code fnt code f)"
    using assms ne by (simp add: sgr_step_def)
  then have "sgr_loop fnt parts idx f = sgr_loop fnt parts (idx + 1) (apply_sgr_code fnt code f)"
    using assms(1) by (subst sgr_loop.simps) simp
  then show ?thesis using sgr_loop_drop[of fnt parts "idx + 1"] by simp
qed

lemma sgr_loop_ordinary_prefix:
  assumes "list_all2 (\<lambda>p c. py_int p = Inr c \<and> c \<noteq> 38 \<and> c \<noteq> 48) pre codes"
  shows "sgr_loop fnt (pre @ rest) 0 f = sgr_loop fnt rest 0 (fold (apply_sgr_code fnt) codes f)"
  using assms
proof (induction pre codes arbitrary: f rule: list_all2_induct)
  case Nil
  show ?case by simp
next
  case (Cons p ps c cs)
  have "sgr_loop fnt ((p # ps) @ rest) 0 f
        = sgr_loop fnt (drop (0 + 1) ((p # ps) @ rest)) 0 (apply_sgr_code fnt c f)"
    using Cons.hyps(1) by (intro sgr_loop_applies_code) simp_all
  then show ?case using Cons.IH[of "apply_sgr_code fnt c f"] by simp
qed

text \<open>
  In term66.py a token that is no number, standing where the loop reads a code, is
  skipped: the codes before it are applied, and the loop goes on behind it as on a list
  of its own.
\<close>

lemma sgr_loop_around_malformed:
  assumes "list_all2 (\<lambda>p c. py_int p = Inr c \<and> c \<noteq> 38 \<and> c \<noteq> 48) pre codes"
    and "bad \<noteq> []" and "py_int bad = Inl ValueError"
  shows "sgr_loop fnt (pre @ bad # post) 0 f
         = sgr_loop fnt post 0 (fold (apply_sgr_code fnt) codes f)"
proof -
  have "sgr_loop fnt (bad # post) 0 (fold (apply_sgr_code fnt) codes f)
        = sgr_loop fnt (drop (0 + 1) (bad # post)) 0 (fold (apply_sgr_code fnt) codes f)"
    using assms(2,3) by (intro sgr_loop_skips_malformed) simp_all
  then show ?thesis using sgr_loop_ordinary_prefix[OF assms(1), of fnt "bad # post" f] by simp
qed

text \<open>
  Claim C3. The loop of term3.py reads the colour mode behind a 38 or 48 with an
  \<open>int(...)\<close> outside any \<open>try\<close>: on the parameter string \<open>38;?\<close> the \<open>ValueError\<close>
  leaves the loop and \<open>append_ansi_text\<close>. The loop of term66.py, which has the
  \<open>try\<close>, skips the token and returns.
\<close>

theorem v3_raises_on_malformed_colour_mode:
  "sgr_params_v3 ''38;?'' default_style = Inl ValueError
   \<and> sgr_params None ''38;?'' default_style = Inr default_style"
  by (simp add: sgr_eval sgr_params_v3_def sgr_loop_v3.simps sgr_step_v3_def)

text \<open>
  Claim C4, as the code has it. Where the loop reads 38 or 48 and the next parameter is
  5, the mode and one further parameter are passed over when that further parameter
  exists; where the next parameter is 2, the mode and three further parameters are
  passed over when all three exist. The format is not changed, and the loop goes on
  behind them as on a list of its own. When the list ends too early, nothing is passed
  over and the loop goes on at the mode parameter.
\<close>

theorem extended_colour_consumes_subparameters:
  assumes "py_int (parts ! idx) = Inr code" and "code = 38 \<or> code = 48"
    and "idx + 1 < length parts" and "py_int (parts ! (idx + 1)) = Inr mode"
  shows "(mode = 5 \<and> idx + 2 < length parts
            \<longrightarrow> sgr_loop fnt parts idx f = sgr_loop fnt (drop (idx + 3) parts) 0 f)
       \<and> (mode = 2 \<and> idx + 4 < length parts
            \<longrightarrow> sgr_loop fnt parts idx f = sgr_loop fnt (drop (idx + 5) parts) 0 f)
       \<and> ((mode = 5 \<and> \<not> idx + 2 < length parts) \<or> (mode = 2 \<and> \<not> idx + 4 < length parts)
            \<longrightarrow> sgr_loop fnt parts idx f = sgr_loop fnt (drop (idx + 1) parts) 0 f)"
proof -
  have ne: "parts ! idx \<noteq> []" using assms(1) by (auto simp: py_int_def)
  have lt: "idx < length parts" using assms(3) by simp
  have a: "mode = 5 \<and> idx + 2 < length parts \<Longrightarrow> sgr_step fnt parts idx f = Inr (2, f)"
    using assms ne by (auto simp: sgr_step_def)
  have b: "mode = 2 \<and> idx + 4 < length parts \<Longrightarrow> sgr_step fnt parts idx f = Inr (4, f)"
    using assms ne by (auto simp: sgr_step_def)
  have c: "(mode = 5 \<and> \<not> idx + 2 < length parts) \<or> (mode = 2 \<and> \<not> idx + 4 < length parts)
           \<Longrightarrow> sgr_step fnt parts idx f = Inr (0, f)"
    using assms ne by (auto simp: sgr_step_def)
  have a': "mode = 5 \<and> idx + 2 < length parts \<Longrightarrow> sgr_loop fnt parts idx f = sgr_loop fnt parts (idx + 3) f"
    using a lt by (subst sgr_loop.simps) (simp add: numeral_3_eq_3)
  have b': "mode = 2 \<and> idx + 4 < length parts \<Longrightarrow> sgr_loop fnt parts idx f = sgr_loop fnt parts (idx + 5) f"
    using b lt by (subst sgr_loop.simps) (simp add: eval_nat_numeral)
  have c': "(mode = 5 \<and> \<not> idx + 2 < length parts) \<or> (mode = 2 \<and> \<not> idx + 4 < length parts)
           \<Longrightarrow> sgr_loop fnt parts idx f = sgr_loop fnt parts (idx + 1) f"
    using c lt by (subst sgr_loop.simps) simp
  show ?thesis
    using a' b' c' sgr_loop_drop[of fnt parts "idx + 3" f] sgr_loop_drop[of fnt parts "idx + 5" f]
      sgr_loop_drop[of fnt parts "idx + 1" f]
    by presburger
qed

theorem extended_colour_consumes_subparameters_witness:
  "sgr_params None ''38;5;1;4'' default_style = Inr (default_style\<lparr>fontUnderline := True\<rparr>)
   \<and> sgr_params None ''48;2;1;3;4;1'' default_style = Inr (default_style\<lparr>fontWeight := Bold\<rparr>)
   \<and> sgr_params None ''1;38;5'' default_style = Inr (default_style\<lparr>fontWeight := Bold\<rparr>)"
proof -
  have p1: "py_int ([''38'', ''5'', ''1'', ''4''] ! 0) = Inr 38 \<and> (0::nat) + 1 < length [''38'', ''5'', ''1'', ''4'']
      \<and> py_int ([''38'', ''5'', ''1'', ''4''] ! (0 + 1)) = Inr 5"
    by (simp add: py_int_def is_digit_def digit_val_def)
  have p2: "py_int ([''48'', ''2'', ''1'', ''3'', ''4'', ''1''] ! 0) = Inr 48
      \<and> (0::nat) + 1 < length [''48'', ''2'', ''1'', ''3'', ''4'', ''1'']
      \<and> py_int ([''48'', ''2'', ''1'', ''3'', ''4'', ''1''] ! (0 + 1)) = Inr 2"
    by (simp add: py_int_def is_digit_def digit_val_def)
  have p3: "py_int ([''1'', ''38'', ''5''] ! 1) = Inr 38
      \<and> (1::nat) + 1 < length [''1'', ''38'', ''5'']
      \<and> py_int ([''1'', ''38'', ''5''] ! (1 + 1)) = Inr 5"
    by (simp add: py_int_def is_digit_def digit_val_def)
  have r1: "sgr_loop None [''38'', ''5'', ''1'', ''4''] 0 default_style = sgr_loop None [''4''] 0 default_style"
    using extended_colour_consumes_subparameters[of "[''38'', ''5'', ''1'', ''4'']" 0 38 5 None default_style] p1
    by simp
  have r2: "sgr_loop None [''48'', ''2'', ''1'', ''3'', ''4'', ''1''] 0 default_style = sgr_loop None [''1''] 0 default_style"
    using extended_colour_consumes_subparameters[of "[''48'', ''2'', ''1'', ''3'', ''4'', ''1'']" 0 48 2 None default_style] p2
    by simp
  have r3: "sgr_loop None [''1'', ''38'', ''5''] 1 (default_style\<lparr>fontWeight := Bold\<rparr>)
      = sgr_loop None [''5''] 0 (default_style\<lparr>fontWeight := Bold\<rparr>)"
    using extended_colour_consumes_subparameters[of "[''1'', ''38'', ''5'']" 1 38 5 None
        "default_style\<lparr>fontWeight := Bold\<rparr>"] p3
    by simp
  have e1: "sgr_loop None [''4''] 0 default_style = Inr (default_style\<lparr>fontUnderline := True\<rparr>)"
    by (simp add: sgr_eval)
  have e2: "sgr_loop None [''1''] 0 default_style = Inr (default_style\<lparr>fontWeight := Bold\<rparr>)"
    by (simp add: sgr_eval)
  have e3: "sgr_loop None [''5''] 0 (default_style\<lparr>fontWeight := Bold\<rparr>) = Inr (default_style\<lparr>fontWeight := Bold\<rparr>)"
    by (simp add: sgr_eval)
  have s3: "sgr_loop None [''1'', ''38'', ''5''] 0 default_style
       = sgr_loop None [''1'', ''38'', ''5''] 1 (default_style\<lparr>fontWeight := Bold\<rparr>)"
    by (subst sgr_loop.simps) (simp add: sgr_step_def py_int_def is_digit_def digit_val_def apply_sgr_code_def)
  show ?thesis
    using r1 r2 r3 e1 e2 e3 s3 by (simp add: sgr_params_def sgr_parts_def)
qed


text \<open>
  The claim as stated fails on \<open>38;2;1;4\<close>: the mode 2 is followed by two parameters
  only, nothing is consumed, and 1 and 4 are applied as codes of their own.
\<close>

theorem truncated_rgb_applied_as_codes:
  "sgr_params None ''38;2;1;4'' default_style
     = Inr (default_style\<lparr>fontWeight := Bold, fontUnderline := True\<rparr>)"
  by (simp add: sgr_eval)

section \<open>Submitting a line\<close>

lemma rstrip_nl_decomp: "\<exists>k. x = rstrip_nl x @ replicate k NL"
proof -
  have "rev x = takeWhile (\<lambda>c. c = NL) (rev x) @ dropWhile (\<lambda>c. c = NL) (rev x)" by simp
  moreover have "takeWhile (\<lambda>c. c = NL) (rev x) = replicate (length (takeWhile (\<lambda>c. c = NL) (rev x))) NL"
    by (metis (mono_tags, lifting) replicate_eqI set_takeWhileD)
  ultimately have "rev x = replicate (length (takeWhile (\<lambda>c. c = NL) (rev x))) NL @ rev (rstrip_nl x)"
    by (simp add: rstrip_nl_def)
  then have "rev (rev x) = rev (replicate (length (takeWhile (\<lambda>c. c = NL) (rev x))) NL @ rev (rstrip_nl x))"
    by simp
  then have "x = rstrip_nl x @ replicate (length (takeWhile (\<lambda>c. c = NL) (rev x))) NL"
    by simp
  then show ?thesis by blast
qed

lemma rstrip_nl_last: "rstrip_nl x = [] \<or> last (rstrip_nl x) \<noteq> NL"
proof (cases "dropWhile (\<lambda>c. c = NL) (rev x)")
  case Nil
  then show ?thesis by (simp add: rstrip_nl_def)
next
  case (Cons a as)
  then have "a \<noteq> NL" by (metis (full_types) hd_dropWhile list.distinct(1) list.sel(1))
  then show ?thesis using Cons by (simp add: rstrip_nl_def)
qed

text \<open>
  Claim C2, as the code has it. When Return or Enter reaches the submit branch (there
  is a selection, or the end of the text is not before the input boundary) and the
  process runs, the text from \<open>input_start_pos\<close> to the end of the document, without
  its trailing line breaks and with one line break appended, is written to the process;
  the key is then passed on to the editor, which types the line break unless Control
  is held, and the input boundary becomes the new end of the text. With the boundary at 8 and the text
  \<open>prompt> ls -la\<close> plus a line break, the line written is \<open>ls -la\<close> plus a line break.
\<close>

theorem submit_sends_pending_line:
  assumes "ev_key ev = Key_Return \<or> ev_key ev = Key_Enter" and "process_running s"
    and "has_selection s \<or> input_start_pos s \<le> length (doc s)"
  shows "\<exists>s' line k. keyPressEvent ev s = Inr s'
           \<and> drop (input_start_pos s) (doc s) = line @ replicate k NL
           \<and> (line = [] \<or> last line \<noteq> NL)
           \<and> effects s' = effects s @ [Written (line @ [NL]), Forwarded ev]
           \<and> doc s' = doc s @ (if ev_ctrl ev then [] else [NL])
           \<and> input_start_pos s' = length (doc s')"
proof -
  define line where "line = rstrip_nl (drop (input_start_pos s) (doc s))"
  obtain k where k: "drop (input_start_pos s) (doc s) = line @ replicate k NL"
    unfolding line_def using rstrip_nl_decomp by blast
  have l: "line = [] \<or> last line \<noteq> NL" unfolding line_def by (rule rstrip_nl_last)
  have "\<exists>s'. keyPressEvent ev s = Inr s'
           \<and> effects s' = effects s @ [Written (line @ [NL]), Forwarded ev]
           \<and> doc s' = doc s @ (if ev_ctrl ev then [] else [NL])
           \<and> input_start_pos s' = length (doc s')"
    using assms
    by (auto simp: keyPressEvent_def submit_line_def qt_keyPressEvent_def move_cursor_end_def
        edit_insert_def has_selection_def Let_def line_def)
  then show ?thesis using k l by blast
qed

theorem submit_sends_pending_line_witness:
  "keyPressEvent enter_ev (s_ls 8)
     = Inr ((s_ls 8)\<lparr>doc := ''prompt> ls -la'' @ [NL, NL], position := 16, anchor := 16,
              input_start_pos := 16,
              effects := [Written (''ls -la'' @ [NL]), Forwarded enter_ev]\<rparr>)"
proof -
  have a: "ev_key enter_ev = Key_Return \<or> ev_key enter_ev = Key_Enter"
    by (simp add: enter_ev_def)
  have b: "process_running (s_ls 8)" by (simp add: s_ls_def)
  have c: "has_selection (s_ls 8) \<or> input_start_pos (s_ls 8) \<le> length (doc (s_ls 8))"
    by (simp add: s_ls_def)
  have d: "drop (input_start_pos (s_ls 8)) (doc (s_ls 8)) = ''ls -la'' @ [NL]"
    by (simp add: s_ls_def)
  from submit_sends_pending_line[OF a b c] obtain s' line k where
    r: "keyPressEvent enter_ev (s_ls 8) = Inr s'"
    and k: "drop (input_start_pos (s_ls 8)) (doc (s_ls 8)) = line @ replicate k NL"
    and l: "line = [] \<or> last line \<noteq> NL"
    and e: "effects s' = effects (s_ls 8) @ [Written (line @ [NL]), Forwarded enter_ev]"
    by blast
  have "keyPressEvent enter_ev (s_ls 8)
     = Inr ((s_ls 8)\<lparr>doc := ''prompt> ls -la'' @ [NL, NL], position := 16, anchor := 16,
              input_start_pos := 16,
              effects := [Written (''ls -la'' @ [NL]), Forwarded enter_ev]\<rparr>)"
    by (simp add: keyPressEvent_def submit_line_def qt_keyPressEvent_def move_cursor_end_def
        edit_insert_def has_selection_def Let_def s_ls_def s_init_def enter_ev_def rstrip_nl_def NL_def)
  then show ?thesis using r by simp
qed


text \<open>
  With the boundary at 10, as the claim has it, the slice starts behind \<open>ls\<close>: the line
  written is \<open> -la\<close> plus a line break.
\<close>

theorem submit_at_boundary_10_sends_tail:
  "keyPressEvent enter_ev (s_ls 10)
     = Inr ((s_ls 10)\<lparr>doc := ''prompt> ls -la'' @ [NL, NL], position := 16, anchor := 16,
              input_start_pos := 16,
              effects := [Written ('' -la'' @ [NL]), Forwarded enter_ev]\<rparr>)"
  by (simp add: keyPressEvent_def submit_line_def qt_keyPressEvent_def move_cursor_end_def
      edit_insert_def has_selection_def Let_def s_ls_def s_init_def enter_ev_def rstrip_nl_def NL_def)

section \<open>The OSC title\<close>

lemma takeWhile_class_stop:
  "list_all P xs \<Longrightarrow> \<not> P y \<Longrightarrow> takeWhile P (xs @ y # ys) = xs"
  by (induction xs) simp_all

lemma osc_match:
  assumes t: "t \<in> set ''012''" and p: "list_all osc_class payload"
    and f: "fin = [BEL] \<or> fin = [ESC, CHR 0x5C]"
  shows "match_at (CHR '']'' # t # CHR '';'' # payload @ fin)
         = Some (no_groups\<lparr>g_osc_t := Some [t], g_osc_c := Some payload\<rparr>,
                 length (CHR '']'' # t # CHR '';'' # payload @ fin))"
proof -
  have s: "alt_sgr (CHR '']'' # xs) = None" for xs
    by (simp add: alt_sgr_def)
  from f show ?thesis
  proof
    assume fb: "fin = [BEL]"
    have tw: "takeWhile osc_class (payload @ [BEL]) = payload"
      using takeWhile_class_stop[OF p, of BEL "[]"] by (simp add: osc_class_def)
    show ?thesis
      using t by (simp add: match_at_def first_of_def s alt_osc_def fb tw Let_def)
  next
    assume fe: "fin = [ESC, CHR 0x5C]"
    have tw: "takeWhile osc_class (payload @ [ESC, CHR 0x5C]) = payload"
      using takeWhile_class_stop[OF p, of ESC "[CHR 0x5C]"] by (simp add: osc_class_def)
    have ne: "ESC \<noteq> BEL" by (simp add: ESC_def BEL_def)
    show ?thesis
      using t by (simp add: match_at_def first_of_def s alt_osc_def fe tw Let_def ne)
  qed
qed

text \<open>
  Claim C6, as the code has it. A chunk that is one OSC sequence with command number
  0, 1 or 2, closed by \<open>BEL\<close> or by \<open>ESC \\<close>, gives \<open>titleChanged.emit\<close> with the raw
  payload when the payload is not empty, inserts no text and leaves the document as it
  was. When the payload is empty the sequence is consumed and nothing is emitted: the
  test \<open>osc_t and osc_c\<close> is false for the empty string.
\<close>

theorem osc_title_emitted_for_nonempty_payload:
  assumes t: "t \<in> set ''012''" and p: "list_all osc_class payload"
    and f: "fin = [BEL] \<or> fin = [ESC, CHR 0x5C]"
  shows "\<exists>s'. append_ansi_text (ESC # CHR '']'' # t # CHR '';'' # payload @ fin) s = Inr s'
           \<and> effects s' = effects s @ (if payload = [] then [] else [TitleChanged payload])
           \<and> doc s' = doc s"
proof -
  define cs where "cs = CHR '']'' # t # CHR '';'' # payload @ fin"
  define g where "g = no_groups\<lparr>g_osc_t := Some [t], g_osc_c := Some payload\<rparr>"
  have m: "match_at cs = Some (g, length cs)"
    unfolding cs_def g_def using osc_match[OF t p f] .
  have fi: "finditer (ESC # cs) = [(0, 1 + length cs, g)]"
    by (simp add: finditer_def m)
  have tt: "[t] \<in> set [''0'', ''1'', ''2'']" using t by auto
  have h: "handle_match g u
           = Inr (if payload = [] then u else u\<lparr>effects := effects u @ [TitleChanged payload]\<rparr>)" for u
    using tt by (simp add: handle_match_def g_def no_groups_def truthy_def)
  show ?thesis
    unfolding cs_def[symmetric]
    by (simp add: append_ansi_text_def fi h move_cursor_end_def Let_def)
qed

theorem osc_title_emitted_for_nonempty_payload_witness:
  "append_ansi_text title_chunk s_init = Inr (s_init\<lparr>effects := [TitleChanged ''My Title'']\<rparr>)"
proof -
  have a: "CHR ''0'' \<in> set ''012''" by simp
  have b: "list_all osc_class ''My Title''" by (simp add: osc_class_def BEL_def ESC_def)
  have c: "[BEL] = [BEL] \<or> [BEL] = [ESC, CHR 0x5C]" by simp
  from osc_title_emitted_for_nonempty_payload[OF a b c, of s_init] obtain s' where
    r: "append_ansi_text (ESC # CHR '']'' # CHR ''0'' # CHR '';'' # ''My Title'' @ [BEL]) s_init = Inr s'"
    and e: "effects s' = effects s_init @ (if ''My Title'' = [] then [] else [TitleChanged ''My Title''])"
    and d: "doc s' = doc s_init" by blast
  obtain s2 where r2: "append_ansi_text title_chunk s_init = Inr s2"
    and f2: "frame s_init s2" and i2: "input_start_pos s2 = length (doc s2)"
    and p2: "position s2 = length (doc s2)" and a2: "anchor s2 = length (doc s2)"
    using append_ansi_text_props by blast
  have same: "s2 = s'" using r r2 by (simp add: title_chunk_def)
  have cf: "current_format s2 = default_style"
    using r2 by (auto simp: title_chunk_def append_ansi_text_def finditer_def match_defs
        handle_match_def truthy_def move_cursor_end_def s_init_def Let_def)
  have "s2 = s_init\<lparr>effects := [TitleChanged ''My Title'']\<rparr>"
    using e d f2 i2 p2 a2 cf same
    by (cases s2) (simp add: s_init_def frame_def)
  then show ?thesis using r2 by simp
qed

text \<open>With an empty payload no title is emitted: the session is left as it was.\<close>

theorem osc_empty_title_not_emitted:
  "append_ansi_text empty_title_chunk s_init = Inr s_init"
  by (simp add: empty_title_chunk_def append_ansi_text_def finditer_def match_defs
      handle_match_def truthy_def move_cursor_end_def s_init_def Let_def)

section \<open>Deletion keys and the committed history\<close>

lemma key_backspace:
  "ev_key ev = Key_Backspace \<Longrightarrow>
   keyPressEvent ev u =
     Inr (if has_selection u then qt_keyPressEvent ev u
          else if input_start_pos u < length (doc u) then qt_keyPressEvent ev (move_cursor_end u)
          else move_cursor_end u)"
  by (simp add: keyPressEvent_def Let_def move_cursor_end_def)

lemma key_delete:
  "ev_key ev = Key_Delete \<Longrightarrow>
   keyPressEvent ev u =
     Inr (if has_selection u then qt_keyPressEvent ev u
          else if input_start_pos u \<le> length (doc u) then qt_keyPressEvent ev (move_cursor_end u)
          else move_cursor_end u)"
  by (simp add: keyPressEvent_def Let_def move_cursor_end_def)

lemma qt_backspace_at_end:
  "ev_key ev = Key_Backspace \<Longrightarrow> \<not> ev_ctrl ev \<Longrightarrow>
   qt_keyPressEvent ev (move_cursor_end u) =
     (if 0 < length (doc u)
      then u\<lparr>doc := butlast (doc u), position := length (doc u) - 1, anchor := length (doc u) - 1,
             effects := effects u @ [Forwarded ev]\<rparr>
      else u\<lparr>position := 0, anchor := 0, effects := effects u @ [Forwarded ev]\<rparr>)"
  by (simp add: qt_keyPressEvent_def Let_def move_cursor_end_def has_selection_def butlast_conv_take)

lemma qt_delete_at_end:
  "ev_key ev = Key_Delete \<Longrightarrow>
   qt_keyPressEvent ev (move_cursor_end u) =
     u\<lparr>position := length (doc u), anchor := length (doc u),
       effects := effects u @ [Forwarded ev]\<rparr>"
  by (simp add: qt_keyPressEvent_def Let_def move_cursor_end_def has_selection_def
      edit_insert_def)

lemma deletion_step:
  assumes n: "\<not> has_selection s"
    and k: "(ev_key ev = Key_Backspace \<and> \<not> ev_ctrl ev) \<or> ev_key ev = Key_Delete"
  shows "\<exists>s'. keyPressEvent ev s = Inr s'
           \<and> take (input_start_pos s) (doc s') = take (input_start_pos s) (doc s)
           \<and> input_start_pos s' = input_start_pos s \<and> \<not> has_selection s'"
  using k
proof
  assume "ev_key ev = Key_Backspace \<and> \<not> ev_ctrl ev"
  then have b: "ev_key ev = Key_Backspace" and c: "\<not> ev_ctrl ev" by simp_all
  show ?thesis
  proof (cases "input_start_pos s < length (doc s)")
    case True
    then have "take (input_start_pos s) (butlast (doc s)) = take (input_start_pos s) (doc s)"
      by (simp add: take_butlast)
    then show ?thesis
      using n True by (simp add: key_backspace[OF b] qt_backspace_at_end[OF b c] has_selection_def)
  next
    case False
    then show ?thesis
      using n by (simp add: key_backspace[OF b] move_cursor_end_def has_selection_def)
  qed
next
  assume d: "ev_key ev = Key_Delete"
  show ?thesis
  proof (cases "input_start_pos s \<le> length (doc s)")
    case True
    then show ?thesis
      using n by (simp add: key_delete[OF d] qt_delete_at_end[OF d] has_selection_def)
  next
    case False
    then show ?thesis
      using n by (simp add: key_delete[OF d] move_cursor_end_def has_selection_def)
  qed
qed

lemma deletion_run:
  assumes "\<not> has_selection s"
    and "\<forall>ev \<in> set evs. (ev_key ev = Key_Backspace \<and> \<not> ev_ctrl ev) \<or> ev_key ev = Key_Delete"
  shows "\<exists>s'. key_presses evs s = Inr s'
           \<and> take (input_start_pos s) (doc s') = take (input_start_pos s) (doc s)
           \<and> input_start_pos s' = input_start_pos s \<and> \<not> has_selection s'"
  using assms
proof (induction evs arbitrary: s)
  case Nil
  then show ?case by simp
next
  case (Cons ev evs)
  from Cons.prems have k: "(ev_key ev = Key_Backspace \<and> \<not> ev_ctrl ev) \<or> ev_key ev = Key_Delete"
    by simp
  from deletion_step[OF Cons.prems(1) k] obtain s1 where
    r1: "keyPressEvent ev s = Inr s1"
    and t1: "take (input_start_pos s) (doc s1) = take (input_start_pos s) (doc s)"
    and b1: "input_start_pos s1 = input_start_pos s" and n1: "\<not> has_selection s1" by blast
  from Cons.prems
  have "\<forall>ev \<in> set evs. (ev_key ev = Key_Backspace \<and> \<not> ev_ctrl ev) \<or> ev_key ev = Key_Delete"
    by simp
  from Cons.IH[OF n1 this] obtain s' where
    r2: "key_presses evs s1 = Inr s'"
    and t2: "take (input_start_pos s1) (doc s') = take (input_start_pos s1) (doc s1)"
    and b2: "input_start_pos s' = input_start_pos s1" and n2: "\<not> has_selection s'" by blast
  show ?case using r1 r2 t1 t2 b1 b2 n2 by simp
qed

lemma deletion_forwarded:
  "(ev_key ev = Key_Backspace \<longrightarrow>
      keyPressEvent ev u =
        Inr (if has_selection u \<or> input_start_pos u < edit_point u
             then qt_keyPressEvent ev (if has_selection u then u else move_cursor_end u)
             else move_cursor_end u))
   \<and> (ev_key ev = Key_Delete \<longrightarrow>
      keyPressEvent ev u =
        Inr (if has_selection u \<or> input_start_pos u \<le> edit_point u
             then qt_keyPressEvent ev (if has_selection u then u else move_cursor_end u)
             else move_cursor_end u))"
  by (simp add: key_backspace key_delete edit_point_def)

lemma qt_forwards: "effects (qt_keyPressEvent ev u) = effects u @ [Forwarded ev]"
  by (simp add: qt_keyPressEvent_def Let_def edit_insert_def remove_selected_def
      split: prod.split)

text \<open>
  What holds of the deletion keys. From a session without a selection, any run of
  Delete events and of Backspace events without Control returns, leaves the input
  boundary where it was and leaves the text in front of it unchanged. A Backspace is
  passed on to the editor exactly when there is a selection or the edit point lies
  behind the boundary, a Delete exactly when there is a selection or the edit point lies
  at or behind the boundary.
\<close>

lemma plain_deletion_keys_keep_history:
  "(\<not> has_selection s
      \<and> (\<forall>ev \<in> set evs. (ev_key ev = Key_Backspace \<and> \<not> ev_ctrl ev) \<or> ev_key ev = Key_Delete)
      \<longrightarrow> (\<exists>s'. key_presses evs s = Inr s'
             \<and> take (input_start_pos s) (doc s') = take (input_start_pos s) (doc s)
             \<and> input_start_pos s' = input_start_pos s \<and> \<not> has_selection s'))
   \<and> (ev_key ev = Key_Backspace \<longrightarrow>
        (\<exists>u'. keyPressEvent ev u = Inr u'
           \<and> effects u' = effects u @
                (if has_selection u \<or> input_start_pos u < edit_point u then [Forwarded ev] else [])))
   \<and> (ev_key ev = Key_Delete \<longrightarrow>
        (\<exists>u'. keyPressEvent ev u = Inr u'
           \<and> effects u' = effects u @
                (if has_selection u \<or> input_start_pos u \<le> edit_point u then [Forwarded ev] else [])))"
proof (intro conjI impI)
  assume "\<not> has_selection s
      \<and> (\<forall>ev \<in> set evs. (ev_key ev = Key_Backspace \<and> \<not> ev_ctrl ev) \<or> ev_key ev = Key_Delete)"
  then show "\<exists>s'. key_presses evs s = Inr s'
             \<and> take (input_start_pos s) (doc s') = take (input_start_pos s) (doc s)
             \<and> input_start_pos s' = input_start_pos s \<and> \<not> has_selection s'"
    using deletion_run by blast
next
  assume "ev_key ev = Key_Backspace"
  then show "\<exists>u'. keyPressEvent ev u = Inr u'
           \<and> effects u' = effects u @
                (if has_selection u \<or> input_start_pos u < edit_point u then [Forwarded ev] else [])"
    using deletion_forwarded[of ev u] by (simp add: qt_forwards move_cursor_end_def)
next
  assume "ev_key ev = Key_Delete"
  then show "\<exists>u'. keyPressEvent ev u = Inr u'
           \<and> effects u' = effects u @
                (if has_selection u \<or> input_start_pos u \<le> edit_point u then [Forwarded ev] else [])"
    using deletion_forwarded[of ev u] by (simp add: qt_forwards move_cursor_end_def)
qed

lemma plain_deletion_example:
  "key_presses [backspace_ev, delete_ev, backspace_ev, backspace_ev] s_hist
     = Inr (s_hist\<lparr>doc := ''$ '', position := 2, anchor := 2,
              effects := [Forwarded backspace_ev, Forwarded delete_ev, Forwarded backspace_ev]\<rparr>)"
  by (simp add: keyPressEvent_def qt_keyPressEvent_def move_cursor_end_def has_selection_def
      Let_def s_hist_def s_init_def backspace_ev_def delete_ev_def)

text \<open>
  Claim C7. The guard of \<open>keyPressEvent\<close> for Backspace looks at the key and at the
  cursor only. With Control held the editor removes the text back to the start of the
  word, and that start can lie in front of the input boundary: on a text of the prompt
  \<open>$\<close> and a blank (the boundary is 2) followed by one typed blank, with no selection,
  Control-Backspace is passed on, since the end of the text lies behind the boundary,
  and the editor removes everything back to position 0. The text in front of the
  boundary is gone.
\<close>

theorem ctrl_backspace_erases_history:
  "take (input_start_pos s_blank) (doc s_blank) = ''$ ''
   \<and> \<not> has_selection s_blank
   \<and> keyPressEvent ctrl_backspace_ev s_blank
       = Inr (s_blank\<lparr>doc := [], position := 0, anchor := 0,
                effects := [Forwarded ctrl_backspace_ev]\<rparr>)"
  by (simp add: keyPressEvent_def qt_keyPressEvent_def move_cursor_end_def has_selection_def
      edit_insert_def Let_def s_blank_def s_init_def ctrl_backspace_ev_def)

section \<open>Rendering the diagnostic messages\<close>

lemma finditer_from_no_ESC:
  "ESC \<notin> set xs \<Longrightarrow> finditer_from pos (xs @ ys) = finditer_from (pos + length xs) ys"
  by (induction xs arbitrary: pos) auto

lemma match_sgr_31: "match_at (''[31m'' @ r) = Some (no_groups\<lparr>g_sgr := Some ''31''\<rparr>, 4)"
  by (simp add: match_at_def first_of_def alt_sgr_def sgr_class_def is_digit_def)

lemma match_sgr_0: "match_at (''[0m'' @ r) = Some (no_groups\<lparr>g_sgr := Some ''0''\<rparr>, 3)"
  by (simp add: match_at_def first_of_def alt_sgr_def sgr_class_def is_digit_def)

lemma match_NL: "finditer_from pos [NL] = []"
  by (simp add: NL_def ESC_def)

lemma finditer_red:
  assumes "ESC \<notin> set body"
  shows "finditer (red body)
         = [(0, 5, no_groups\<lparr>g_sgr := Some ''31''\<rparr>),
            (5 + length body, 9 + length body, no_groups\<lparr>g_sgr := Some ''0''\<rparr>)]"
proof -
  have a: "finditer (red body) = (0, 5, no_groups\<lparr>g_sgr := Some ''31''\<rparr>)
             # finditer_from 5 (body @ ESC # ''[0m'' @ [NL])"
    using match_sgr_31[of "body @ ESC # ''[0m'' @ [NL]"]
    by (simp add: finditer_def red_def)
  have b: "finditer_from 5 (body @ ESC # ''[0m'' @ [NL])
           = finditer_from (5 + length body) (ESC # ''[0m'' @ [NL])"
    using assms by (rule finditer_from_no_ESC)
  have c: "finditer_from (5 + length body) (ESC # ''[0m'' @ [NL])
           = [(5 + length body, 9 + length body, no_groups\<lparr>g_sgr := Some ''0''\<rparr>)]"
    using match_sgr_0[of "[NL]"] match_NL by simp
  show ?thesis using a b c by simp
qed

lemma handle_sgr_31:
  "handle_match (no_groups\<lparr>g_sgr := Some ''31''\<rparr>) u
   = Inr (u\<lparr>current_format := (current_format u)\<lparr>foreground := ''#CD0000''\<rparr>\<rparr>)"
  by (simp add: handle_match_def no_groups_def sgr_eval)

lemma handle_sgr_0:
  "handle_match (no_groups\<lparr>g_sgr := Some ''0''\<rparr>) u = Inr (u\<lparr>current_format := default_style\<rparr>)"
  by (simp add: handle_match_def no_groups_def sgr_params_def sgr_parts_def sgr_loop.simps
      sgr_step_def py_int_def is_digit_def digit_val_def apply_sgr_code_def reset_is_default)

lemma slice_red_body: "slice (red body) 5 (5 + length body) = body"
  by (simp add: slice_def red_def)

lemma drop_red_tail: "drop (9 + length body) (red body) = [NL]"
proof -
  have "red body = (ESC # ''[31m'' @ body @ ESC # ''[0m'') @ [NL]" by (simp add: red_def)
  moreover have "length (ESC # ''[31m'' @ body @ ESC # ''[0m'') = 9 + length body" by simp
  ultimately show ?thesis by (metis append_eq_conv_conj)
qed

lemma length_red: "length (red body) = 10 + length body"
  by (simp add: red_def)

lemma append_red:
  assumes e: "ESC \<notin> set body" and n: "body \<noteq> []"
  shows "append_ansi_text (red body) s
         = Inr (s\<lparr>current_format := default_style,
                  doc := doc s @ body @ [NL],
                  position := length (doc s) + length body + 1,
                  anchor := length (doc s) + length body + 1,
                  input_start_pos := length (doc s) + length body + 1,
                  effects := effects s @
                    [Inserted body ((current_format s)\<lparr>foreground := ''#CD0000''\<rparr>),
                     Inserted [NL] default_style]\<rparr>)"
  using n
  by (simp add: append_ansi_text_def finditer_red[OF e] handle_sgr_31 handle_sgr_0
      slice_red_body drop_red_tail length_red Let_def move_cursor_end_def
      insert_plain_text_def edit_insert_def)

lemma no_ESC_cross: "ESC \<notin> set CROSS_MARK" "ESC \<notin> set WARNING_SIGN"
  by (simp_all add: CROSS_MARK_def WARNING_SIGN_def ESC_def)

text \<open>
  Claim C9. While the process is not running, \<open>send_command\<close> makes no call on the
  process and appends its diagnostic to the text (the identifier is taken to hold no
  \<open>ESC\<close>, so that the message is rendered as it is written); and a Return or Enter that
  reaches the submit branch makes no call on the process either and appends
  \<open>Shell not running.\<close> before the key goes to the editor, which types the line break
  unless Control is held.
\<close>

theorem write_while_not_running_is_reported:
  assumes "\<not> process_running s"
  shows "(ESC \<notin> set (terminal_id s) \<longrightarrow>
           (\<exists>s'. send_command cmd append_enter s = Inr s'
              \<and> process_calls (effects s') = process_calls (effects s)
              \<and> doc s' = doc s @ ''['' @ terminal_id s @ ''] '' @ CROSS_MARK
                         @ '' Not running. Cannot send command.'' @ [NL]))
       \<and> ((ev_key ev = Key_Return \<or> ev_key ev = Key_Enter)
            \<and> (has_selection s \<or> input_start_pos s \<le> length (doc s)) \<longrightarrow>
           (\<exists>s'. keyPressEvent ev s = Inr s'
              \<and> process_calls (effects s') = process_calls (effects s)
              \<and> doc s' = doc s @ ''Shell not running.'' @ [NL]
                         @ (if ev_ctrl ev then [] else [NL])))"
proof (intro conjI impI)
  assume e: "ESC \<notin> set (terminal_id s)"
  define body where "body = ''['' @ terminal_id s @ ''] '' @ CROSS_MARK @ '' Not running. Cannot send command.''"
  have b1: "ESC \<notin> set body" using e no_ESC_cross by (simp add: body_def ESC_def)
  have b2: "body \<noteq> []" by (simp add: body_def)
  have sc: "send_command cmd append_enter s = append_ansi_text (red body) s"
    using assms by (simp add: send_command_def body_def)
  show "\<exists>s'. send_command cmd append_enter s = Inr s'
              \<and> process_calls (effects s') = process_calls (effects s)
              \<and> doc s' = doc s @ ''['' @ terminal_id s @ ''] '' @ CROSS_MARK
                         @ '' Not running. Cannot send command.'' @ [NL]"
    unfolding sc append_red[OF b1 b2] by (simp add: body_def)
next
  assume a: "(ev_key ev = Key_Return \<or> ev_key ev = Key_Enter)
            \<and> (has_selection s \<or> input_start_pos s \<le> length (doc s))"
  have m: "ESC # ''[31mShell not running.'' @ ESC # ''[0m'' @ [NL] = red ''Shell not running.''"
    by (simp add: red_def)
  have b1: "ESC \<notin> set ''Shell not running.''" by (simp add: ESC_def)
  have b2: "''Shell not running.'' \<noteq> []" by simp
  have k: "ev_key ev \<noteq> Key_C" "ev_key ev \<noteq> Key_Backspace" "ev_key ev \<noteq> Key_Delete"
    using a by auto
  have sub: "keyPressEvent ev s = submit_line ev (if has_selection s then s else move_cursor_end s)"
    using a k by (auto simp: keyPressEvent_def Let_def move_cursor_end_def)
  have q: "qt_keyPressEvent ev u
           = (if ev_ctrl ev then u\<lparr>effects := effects u @ [Forwarded ev]\<rparr>
              else edit_insert [NL] (u\<lparr>effects := effects u @ [Forwarded ev]\<rparr>))" for u
    using a by (auto simp: qt_keyPressEvent_def Let_def)
  have r: "process_running u = process_running s \<Longrightarrow> doc u = doc s \<Longrightarrow> effects u = effects s \<Longrightarrow>
        \<exists>s'. submit_line ev u = Inr s'
              \<and> process_calls (effects s') = process_calls (effects s)
              \<and> doc s' = doc s @ ''Shell not running.'' @ [NL]
                         @ (if ev_ctrl ev then [] else [NL])" for u
    using assms a
    unfolding submit_line_def m Let_def
    by (simp add: append_red[OF b1 b2] move_cursor_end_def q edit_insert_def Let_def)
  show "\<exists>s'. keyPressEvent ev s = Inr s'
              \<and> process_calls (effects s') = process_calls (effects s)
              \<and> doc s' = doc s @ ''Shell not running.'' @ [NL]
                         @ (if ev_ctrl ev then [] else [NL])"
    unfolding sub by (rule r) (simp_all add: move_cursor_end_def)
qed

theorem write_while_not_running_is_reported_witness:
  "(\<exists>s'. send_command ''ls'' True s_init = Inr s'
       \<and> process_calls (effects s') = []
       \<and> doc s' = ''[Term1] '' @ CROSS_MARK @ '' Not running. Cannot send command.'' @ [NL])
   \<and> (\<exists>s'. keyPressEvent enter_ev s_init = Inr s'
       \<and> process_calls (effects s') = []
       \<and> doc s' = ''Shell not running.'' @ [NL, NL])"
proof -
  have a: "\<not> process_running s_init" by (simp add: s_init_def)
  have b: "ESC \<notin> set (terminal_id s_init)" by (simp add: s_init_def ESC_def)
  have c: "(ev_key enter_ev = Key_Return \<or> ev_key enter_ev = Key_Enter)
            \<and> (has_selection s_init \<or> input_start_pos s_init \<le> length (doc s_init))"
    by (simp add: enter_ev_def s_init_def)
  have d: "terminal_id s_init = ''Term1''" "doc s_init = []" "effects s_init = []"
    by (simp_all add: s_init_def)
  note t = write_while_not_running_is_reported[OF a, of "''ls''" True enter_ev]
  from t b have p1: "\<exists>s'. send_command ''ls'' True s_init = Inr s'
       \<and> process_calls (effects s') = process_calls (effects s_init)
       \<and> doc s' = doc s_init @ ''['' @ terminal_id s_init @ ''] '' @ CROSS_MARK
                         @ '' Not running. Cannot send command.'' @ [NL]"
    by blast
  have nc: "\<not> ev_ctrl enter_ev" by (simp add: enter_ev_def)
  from t c have p2: "\<exists>s'. keyPressEvent enter_ev s_init = Inr s'
       \<and> process_calls (effects s') = process_calls (effects s_init)
       \<and> doc s' = doc s_init @ ''Shell not running.'' @ [NL]
                  @ (if ev_ctrl enter_ev then [] else [NL])"
    by blast
  show ?thesis using p1 p2 nc by (simp add: d)
qed

section \<open>Restart throttling\<close>

lemma append_frame:
  "\<exists>s'. append_ansi_text chunk s = Inr s' \<and> frame s s'"
  using append_ansi_text_props[of chunk s] by blast

lemma launch_shell_none:
  assumes "find_shell e = None \<or> find_shell e = Some []"
  shows "\<exists>s'. launch_shell e s = Inr s' \<and> restart_count s' = restart_count s
           \<and> last_started s' = env_now e \<and> process_running s' = process_running s
           \<and> process_calls (effects s') = process_calls (effects s)"
proof -
  define msg where "msg = red (WARNING_SIGN @ '' ['' @ terminal_id s
                            @ ''] No shell found (bash, powershell, cmd).'')"
  obtain s' where r: "append_ansi_text msg (s\<lparr>last_started := env_now e\<rparr>) = Inr s'"
    and f: "frame (s\<lparr>last_started := env_now e\<rparr>) s'"
    using append_frame by blast
  have "launch_shell e s = Inr s'"
    using assms r unfolding launch_shell_def Let_def msg_def by auto
  then show ?thesis using f by (simp add: frame_def)
qed

lemma launch_shell_found:
  assumes "find_shell e = Some sh" and "sh \<noteq> []"
  shows "\<exists>s'. launch_shell e s = Inr s' \<and> restart_count s' = restart_count s
           \<and> last_started s' = env_now e \<and> process_running s' = env_started e
           \<and> process_calls (effects s') = process_calls (effects s) @ [Started sh (shell_args sh)]"
proof -
  define m1 where "m1 = ''['' @ terminal_id s @ ''] Starting '' @ env_basename e sh @ '' ''
                          @ join_space (shell_args sh) @ ''...'' @ [NL]"
  define m2 where "m2 = red (WARNING_SIGN @ '' Failed to start shell: '' @ env_basename e sh @ ''.'')"
  obtain s1 where r1: "append_ansi_text m1 (s\<lparr>last_started := env_now e\<rparr>) = Inr s1"
    and f1: "frame (s\<lparr>last_started := env_now e\<rparr>) s1"
    using append_frame by blast
  define s2 where "s2 = s1\<lparr>effects := effects s1 @ [Started sh (shell_args sh)]\<rparr>"
  obtain s3 where r3: "append_ansi_text m2 s2 = Inr s3" and f3: "frame s2 s3"
    using append_frame by blast
  have l: "launch_shell e s
        = (if \<not> env_started e then Inr (s3\<lparr>process_running := False\<rparr>)
           else Inr (s2\<lparr>process_running := True\<rparr>))"
    using assms r1 r3 unfolding launch_shell_def Let_def m1_def m2_def s2_def by simp
  show ?thesis
    using f1 f3 by (auto simp: l frame_def s2_def)
qed

lemma start_process_step:
  assumes "\<not> process_running s"
  shows "\<exists>s'. start_process e s = Inr s'
     \<and> (0 < env_now e - last_started s \<and> env_now e - last_started s < 2
          \<longrightarrow> restart_count s' = restart_count s + 1)
     \<and> (\<not> (0 < env_now e - last_started s \<and> env_now e - last_started s < 2)
          \<longrightarrow> restart_count s' = 0)
     \<and> (0 < env_now e - last_started s \<and> env_now e - last_started s < 2 \<and> 3 < restart_count s + 1
          \<longrightarrow> last_started s' = last_started s \<and> \<not> process_running s'
              \<and> process_calls (effects s') = process_calls (effects s))
     \<and> (\<not> (0 < env_now e - last_started s \<and> env_now e - last_started s < 2 \<and> 3 < restart_count s + 1)
          \<longrightarrow> last_started s' = env_now e
              \<and> (\<forall>sh. find_shell e = Some sh \<and> sh \<noteq> []
                    \<longrightarrow> process_running s' = env_started e
                        \<and> process_calls (effects s')
                            = process_calls (effects s) @ [Started sh (shell_args sh)]))"
proof (cases "0 < env_now e - last_started s \<and> env_now e - last_started s < 2")
  case rapid: True
  show ?thesis
  proof (cases "3 < restart_count s + 1")
    case True
    define msg where "msg = red (WARNING_SIGN @ '' ['' @ terminal_id s @ ''] Too many restarts. Shell disabled.'')"
    obtain s' where r: "append_ansi_text msg (s\<lparr>restart_count := restart_count s + 1\<rparr>) = Inr s'"
      and f: "frame (s\<lparr>restart_count := restart_count s + 1\<rparr>) s'"
      using append_frame by blast
    have "start_process e s = Inr s'"
      using assms rapid True r unfolding start_process_def Let_def msg_def by simp
    then show ?thesis using f rapid True assms by (simp add: frame_def)
  next
    case False
    have sp: "start_process e s = launch_shell e (s\<lparr>restart_count := restart_count s + 1\<rparr>)"
      using assms rapid False by (simp add: start_process_def Let_def)
    show ?thesis
    proof (cases "find_shell e = None \<or> find_shell e = Some []")
      case True
      from launch_shell_none[OF True, of "s\<lparr>restart_count := restart_count s + 1\<rparr>"]
      show ?thesis using rapid False True unfolding sp by auto
    next
      case nf: False
      then obtain sh where sh: "find_shell e = Some sh" "sh \<noteq> []" by (cases "find_shell e") auto
      from launch_shell_found[OF sh, of "s\<lparr>restart_count := restart_count s + 1\<rparr>"]
      show ?thesis using rapid False sh unfolding sp by auto
    qed
  qed
next
  case slow: False
  have sp: "start_process e s = launch_shell e (s\<lparr>restart_count := 0\<rparr>)"
    unfolding start_process_def using assms slow by (simp only: if_False)
  show ?thesis
  proof (cases "find_shell e = None \<or> find_shell e = Some []")
    case True
    from launch_shell_none[OF True, of "s\<lparr>restart_count := 0\<rparr>"]
    show ?thesis using slow True unfolding sp by auto
  next
    case nf: False
    then obtain sh where sh: "find_shell e = Some sh" "sh \<noteq> []" by (cases "find_shell e") auto
    from launch_shell_found[OF sh, of "s\<lparr>restart_count := 0\<rparr>"]
    show ?thesis using slow sh unfolding sp by auto
  qed
qed

lemma find_shell_bash: "find_shell (env_at t ok) = Some ''/bin/bash''"
  by (simp add: find_shell_def py_or_def truthy_def which_bash_def env_at_def)

lemma shell_args_bash: "shell_args ''/bin/bash'' = [''--login'', ''-i'']"
  by (simp add: shell_args_def lower_char_def)

lemma env_at_sel [simp]: "env_now (env_at t ok) = t" "env_started (env_at t ok) = ok"
  by (simp_all add: env_at_def)

lemma attempt_accepted:
  assumes "\<not> process_running s"
    and "\<not> (0 < t - last_started s \<and> t - last_started s < 2 \<and> 3 < restart_count s + 1)"
  shows "\<exists>s'. start_process (env_at t ok) s = Inr s'
     \<and> restart_count s' = (if 0 < t - last_started s \<and> t - last_started s < 2
                            then restart_count s + 1 else 0)
     \<and> last_started s' = t \<and> process_running s' = ok
     \<and> process_calls (effects s') = process_calls (effects s) @ [bash_started]"
proof -
  from start_process_step[OF assms(1), of "env_at t ok"] obtain s' where
    r: "start_process (env_at t ok) s = Inr s'"
    and a: "0 < t - last_started s \<and> t - last_started s < 2 \<longrightarrow> restart_count s' = restart_count s + 1"
    and b: "\<not> (0 < t - last_started s \<and> t - last_started s < 2) \<longrightarrow> restart_count s' = 0"
    and c: "\<not> (0 < t - last_started s \<and> t - last_started s < 2 \<and> 3 < restart_count s + 1)
          \<longrightarrow> last_started s' = t
              \<and> (\<forall>sh. find_shell (env_at t ok) = Some sh \<and> sh \<noteq> []
                    \<longrightarrow> process_running s' = ok
                        \<and> process_calls (effects s')
                            = process_calls (effects s) @ [Started sh (shell_args sh)])"
    by auto
  from c assms(2) have l: "last_started s' = t"
    and d: "process_running s' = ok \<and> process_calls (effects s')
                            = process_calls (effects s) @ [Started ''/bin/bash'' (shell_args ''/bin/bash'')]"
    using find_shell_bash[of t ok] by auto
  show ?thesis using r a b l d by (auto simp: shell_args_bash bash_started_def)
qed

lemma attempt_refused:
  assumes "\<not> process_running s"
    and "0 < t - last_started s \<and> t - last_started s < 2 \<and> 3 < restart_count s + 1"
  shows "\<exists>s'. start_process (env_at t ok) s = Inr s'
     \<and> restart_count s' = restart_count s + 1
     \<and> last_started s' = last_started s \<and> \<not> process_running s'
     \<and> process_calls (effects s') = process_calls (effects s)"
  using start_process_step[OF assms(1), of "env_at t ok"] assms(2) by auto

text \<open>
  Claim C1, as the code has it. A start attempt on a session whose process is not
  running returns. When it comes more than 0 and less than 2 seconds after
  \<open>last_started\<close>, the time of the last attempt that was not refused, the counter goes up
  by one; otherwise the counter is set to zero. The attempt is refused exactly when the
  counter, so raised, exceeds 3: then the process is not started, no call is made on it
  and \<open>last_started\<close> stays. Otherwise \<open>last_started\<close> becomes the time of the attempt
  and, when a shell is found, the shell is started. From a counter of zero it is thus the
  fourth rapid attempt in a row, the fifth attempt counting the one that set the counter
  to zero, that is refused.
\<close>

theorem restart_throttle:
  assumes "\<not> process_running s"
  shows "\<exists>s'. start_process e s = Inr s'
     \<and> (0 < env_now e - last_started s \<and> env_now e - last_started s < 2
          \<longrightarrow> restart_count s' = restart_count s + 1)
     \<and> (\<not> (0 < env_now e - last_started s \<and> env_now e - last_started s < 2)
          \<longrightarrow> restart_count s' = 0)
     \<and> (0 < env_now e - last_started s \<and> env_now e - last_started s < 2 \<and> 3 < restart_count s + 1
          \<longrightarrow> last_started s' = last_started s \<and> \<not> process_running s'
              \<and> process_calls (effects s') = process_calls (effects s))
     \<and> (\<not> (0 < env_now e - last_started s \<and> env_now e - last_started s < 2 \<and> 3 < restart_count s + 1)
          \<longrightarrow> last_started s' = env_now e
              \<and> (\<forall>sh. find_shell e = Some sh \<and> sh \<noteq> []
                    \<longrightarrow> process_running s' = env_started e
                        \<and> process_calls (effects s')
                            = process_calls (effects s) @ [Started sh (shell_args sh)]))"
  using assms by (rule start_process_step)

theorem restart_throttle_witness:
  "(\<exists>s'. start_process (env_at 1004 True) s_throttled = Inr s'
       \<and> restart_count s' = 4 \<and> last_started s' = 1003 \<and> \<not> process_running s'
       \<and> process_calls (effects s') = [])
   \<and> (\<exists>s'. start_process (env_at 1006 True) s_throttled = Inr s'
       \<and> restart_count s' = 0 \<and> last_started s' = 1006 \<and> process_running s'
       \<and> process_calls (effects s') = [bash_started])"
proof -
  have a: "\<not> process_running s_throttled" by (simp add: s_throttled_def s_init_def)
  have v: "restart_count s_throttled = 3" "last_started s_throttled = 1003"
    "process_calls (effects s_throttled) = []"
    by (simp_all add: s_throttled_def s_init_def)
  have p1: "\<exists>s'. start_process (env_at 1004 True) s_throttled = Inr s'
       \<and> restart_count s' = 4 \<and> last_started s' = 1003 \<and> \<not> process_running s'
       \<and> process_calls (effects s') = []"
    using restart_throttle[OF a, of "env_at 1004 True"] v by auto
  have p2: "\<exists>s'. start_process (env_at 1006 True) s_throttled = Inr s'
       \<and> restart_count s' = 0 \<and> last_started s' = 1006 \<and> process_running s'
       \<and> process_calls (effects s') = [bash_started]"
    using restart_throttle[OF a, of "env_at 1006 True"] v find_shell_bash[of 1006 True]
    by (auto simp: shell_args_bash bash_started_def)
  show ?thesis using p1 p2 by blast
qed

text \<open>
  The claim as stated fails on a new session: of four attempts one second apart the
  first sets the counter to zero, the next three raise it to 3, and 3 does not exceed
  3, so the fourth attempt starts the shell. The fifth is the one refused.
\<close>

theorem fourth_attempt_starts_shell:
  "throttle_view
     (start_attempts [env_at 1000 False, env_at 1001 False, env_at 1002 False, env_at 1003 True] s_init)
   = Some (3, 1003, True, [bash_started, bash_started, bash_started, bash_started])"
proof -
  have i: "\<not> process_running s_init" "restart_count s_init = 0" "last_started s_init = 0"
    "process_calls (effects s_init) = []"
    by (simp_all add: s_init_def)
  from attempt_accepted[of s_init 1000 False] i obtain s1 where
    r1: "start_process (env_at 1000 False) s_init = Inr s1"
    and v1: "restart_count s1 = 0" "last_started s1 = 1000" "\<not> process_running s1"
      "process_calls (effects s1) = [bash_started]"
    by auto
  from attempt_accepted[of s1 1001 False] v1 obtain s2 where
    r2: "start_process (env_at 1001 False) s1 = Inr s2"
    and v2: "restart_count s2 = 1" "last_started s2 = 1001" "\<not> process_running s2"
      "process_calls (effects s2) = [bash_started, bash_started]"
    by auto
  from attempt_accepted[of s2 1002 False] v2 obtain s3 where
    r3: "start_process (env_at 1002 False) s2 = Inr s3"
    and v3: "restart_count s3 = 2" "last_started s3 = 1002" "\<not> process_running s3"
      "process_calls (effects s3) = [bash_started, bash_started, bash_started]"
    by auto
  from attempt_accepted[of s3 1003 True] v3 obtain s4 where
    r4: "start_process (env_at 1003 True) s3 = Inr s4"
    and v4: "restart_count s4 = 3" "last_started s4 = 1003" "process_running s4"
      "process_calls (effects s4) = [bash_started, bash_started, bash_started, bash_started]"
    by auto
  show ?thesis using r1 r2 r3 r4 v4 by (simp add: throttle_view_def)
qed

lemma fifth_attempt_refused:
  "throttle_view
     (start_attempts [env_at 1000 False, env_at 1001 False, env_at 1002 False, env_at 1003 False,
                      env_at 1004 True] s_init)
   = Some (4, 1003, False, [bash_started, bash_started, bash_started, bash_started])"
proof -
  have i: "\<not> process_running s_init" "restart_count s_init = 0" "last_started s_init = 0"
    "process_calls (effects s_init) = []"
    by (simp_all add: s_init_def)
  from attempt_accepted[of s_init 1000 False] i obtain s1 where
    r1: "start_process (env_at 1000 False) s_init = Inr s1"
    and v1: "restart_count s1 = 0" "last_started s1 = 1000" "\<not> process_running s1"
      "process_calls (effects s1) = [bash_started]"
    by auto
  from attempt_accepted[of s1 1001 False] v1 obtain s2 where
    r2: "start_process (env_at 1001 False) s1 = Inr s2"
    and v2: "restart_count s2 = 1" "last_started s2 = 1001" "\<not> process_running s2"
      "process_calls (effects s2) = [bash_started, bash_started]"
    by auto
  from attempt_accepted[of s2 1002 False] v2 obtain s3 where
    r3: "start_process (env_at 1002 False) s2 = Inr s3"
    and v3: "restart_count s3 = 2" "last_started s3 = 1002" "\<not> process_running s3"
      "process_calls (effects s3) = [bash_started, bash_started, bash_started]"
    by auto
  from attempt_accepted[of s3 1003 False] v3 obtain s4 where
    r4: "start_process (env_at 1003 False) s3 = Inr s4"
    and v4: "restart_count s4 = 3" "last_started s4 = 1003" "\<not> process_running s4"
      "process_calls (effects s4) = [bash_started, bash_started, bash_started, bash_started]"
    by auto
  from attempt_refused[of s4 1004 True] v4 obtain s5 where
    r5: "start_process (env_at 1004 True) s4 = Inr s5"
    and v5: "restart_count s5 = 4" "last_started s5 = 1003" "\<not> process_running s5"
      "process_calls (effects s5) = [bash_started, bash_started, bash_started, bash_started]"
    by auto
  show ?thesis using r1 r2 r3 r4 r5 v5 by (simp add: throttle_view_def)
qed


text \<open>An attempt at the very time of the last one is not rapid for the code: it resets the counter.\<close>

lemma same_instant_attempt_resets:
  "throttle_view (start_attempts [env_at 1003 False] s_throttled)
   = Some (0, 1003, False, [bash_started])"
proof -
  have v: "\<not> process_running s_throttled" "restart_count s_throttled = 3"
    "last_started s_throttled = 1003" "process_calls (effects s_throttled) = []"
    by (simp_all add: s_throttled_def s_init_def)
  from attempt_accepted[of s_throttled 1003 False] v obtain s1 where
    "start_process (env_at 1003 False) s_throttled = Inr s1"
    "restart_count s1 = 0" "last_started s1 = 1003" "\<not> process_running s1"
    "process_calls (effects s1) = [bash_started]"
    by auto
  then show ?thesis by (simp add: throttle_view_def)
qed

section \<open>Output and the pending input\<close>







end
